theory Spec2Isabelle
  imports Complex_Main "HOL-Library.Word" "HOL-Library.Log_Nat"
begin

unbundle bit_operations_syntax

section \<open>Corrade::Cpu: tags, tag combinations and feature sets\<close>

text \<open>
  The embedding follows \<^verbatim>\<open>src/Corrade/Cpu.h\<close>. An \<^verbatim>\<open>unsigned int\<close> is a 32-bit word, an
  \<^verbatim>\<open>unsigned short\<close> a 16-bit word. Preprocessor conditionals become a parameter: the
  target architecture, and the set of \<^verbatim>\<open>CORRADE_TARGET_*\<close> macros that are defined.
\<close>

type_synonym u32 = "32 word"
type_synonym u16 = "16 word"

subsection \<open>Features (class \<^verbatim>\<open>Cpu::Features\<close>)\<close>

text \<open>The class has one private member, \<^verbatim>\<open>unsigned int _data\<close>.\<close>

datatype Features = Features (data: u32)

text \<open>\<^verbatim>\<open>operator==\<close>, \<^verbatim>\<open>operator!=\<close>\<close>

definition Features_eq :: "Features \<Rightarrow> Features \<Rightarrow> bool" where
  "Features_eq a other \<longleftrightarrow> data a = data other"

definition Features_ne :: "Features \<Rightarrow> Features \<Rightarrow> bool" where
  "Features_ne a other \<longleftrightarrow> data a \<noteq> data other"

text \<open>\<^verbatim>\<open>operator>=\<close>: whether \<open>other\<close> is a subset of \<open>a\<close>.\<close>

definition Features_ge :: "Features \<Rightarrow> Features \<Rightarrow> bool" where
  "Features_ge a other \<longleftrightarrow> (data a AND data other) = data other"

text \<open>\<^verbatim>\<open>operator<=\<close>: whether \<open>other\<close> is a superset of \<open>a\<close>.\<close>

definition Features_le :: "Features \<Rightarrow> Features \<Rightarrow> bool" where
  "Features_le a other \<longleftrightarrow> (data a AND data other) = data a"

text \<open>\<^verbatim>\<open>operator|\<close>, \<^verbatim>\<open>operator&\<close>, \<^verbatim>\<open>operator^\<close>, \<^verbatim>\<open>operator~\<close>\<close>

definition Features_or :: "Features \<Rightarrow> Features \<Rightarrow> Features" where
  "Features_or a other = Features (data a OR data other)"

definition Features_and :: "Features \<Rightarrow> Features \<Rightarrow> Features" where
  "Features_and a other = Features (data a AND data other)"

definition Features_xor :: "Features \<Rightarrow> Features \<Rightarrow> Features" where
  "Features_xor a other = Features (data a XOR data other)"

definition Features_not :: "Features \<Rightarrow> Features" where
  "Features_not a = Features (NOT (data a))"

text \<open>\<^verbatim>\<open>explicit operator bool\<close>: the conversion of \<^verbatim>\<open>_data\<close> to \<^verbatim>\<open>bool\<close>.\<close>

definition Features_bool :: "Features \<Rightarrow> bool" where
  "Features_bool a \<longleftrightarrow> data a \<noteq> 0"

subsection \<open>Target architecture and tags\<close>

text \<open>
  \<^verbatim>\<open>CORRADE_TARGET_X86\<close>, \<^verbatim>\<open>CORRADE_TARGET_ARM\<close>, \<^verbatim>\<open>CORRADE_TARGET_WASM\<close>, or none of them:
  the header selects its tag types, \<^verbatim>\<open>ExtraTagCount\<close> and the dispatcher macros with
  \<^verbatim>\<open>#ifdef ... #elif ... #else\<close> chains on these.
\<close>

datatype target = X86 | ARM | WASM | Other

text \<open>The tag types. Each has a \<^verbatim>\<open>TypeTraits<T>::Index\<close>.\<close>

datatype tag =
    ScalarT
  | Sse2T | Sse3T | Ssse3T | Sse41T | Sse42T | PopcntT | LzcntT
  | AvxT | AvxF16cT | AvxFmaT | Avx2T | Avx512fT
  | NeonT | NeonFmaT | NeonFp16T
  | Simd128T

text \<open>The tag types that exist on a target (the \<^verbatim>\<open>#if defined(CORRADE_TARGET_...)\<close> blocks).\<close>

fun tag_defined :: "target \<Rightarrow> tag \<Rightarrow> bool" where
  "tag_defined t ScalarT = True"
| "tag_defined t NeonT = (t = ARM)"
| "tag_defined t NeonFmaT = (t = ARM)"
| "tag_defined t NeonFp16T = (t = ARM)"
| "tag_defined t Simd128T = (t = WASM)"
| "tag_defined t T = (t = X86)"

text \<open>
  The base class of a tag type: \<^verbatim>\<open>struct Sse2T: ScalarT\<close>, \<^verbatim>\<open>struct Sse3T: Sse2T\<close>, ...
  \<^verbatim>\<open>ScalarT\<close> and the extra tag types \<^verbatim>\<open>PopcntT\<close>, \<^verbatim>\<open>LzcntT\<close>, \<^verbatim>\<open>AvxF16cT\<close>, \<^verbatim>\<open>AvxFmaT\<close>
  derive from nothing.
\<close>

fun base_class :: "tag \<Rightarrow> tag option" where
  "base_class ScalarT = None"
| "base_class Sse2T = Some ScalarT"
| "base_class Sse3T = Some Sse2T"
| "base_class Ssse3T = Some Sse3T"
| "base_class Sse41T = Some Ssse3T"
| "base_class Sse42T = Some Sse41T"
| "base_class PopcntT = None"
| "base_class LzcntT = None"
| "base_class AvxT = Some Sse42T"
| "base_class AvxF16cT = None"
| "base_class AvxFmaT = None"
| "base_class Avx2T = Some AvxT"
| "base_class Avx512fT = Some Avx2T"
| "base_class NeonT = Some ScalarT"
| "base_class NeonFmaT = Some NeonT"
| "base_class NeonFp16T = Some NeonFmaT"
| "base_class Simd128T = Some ScalarT"

text \<open>\<^verbatim>\<open>enum: unsigned int { ExtraTagBitOffset = 16 }\<close>\<close>

definition ExtraTagBitOffset :: nat where
  "ExtraTagBitOffset = 16"

text \<open>\<^verbatim>\<open>TypeTraits<T>::Index\<close>\<close>

fun Index :: "tag \<Rightarrow> u32" where
  "Index ScalarT = 0"
| "Index Sse2T = push_bit 0 1"
| "Index Sse3T = push_bit 1 1"
| "Index Ssse3T = push_bit 2 1"
| "Index Sse41T = push_bit 3 1"
| "Index Sse42T = push_bit 4 1"
| "Index AvxT = push_bit 5 1"
| "Index Avx2T = push_bit 6 1"
| "Index Avx512fT = push_bit 7 1"
| "Index PopcntT = push_bit (0 + ExtraTagBitOffset) 1"
| "Index LzcntT = push_bit (1 + ExtraTagBitOffset) 1"
| "Index AvxF16cT = push_bit (2 + ExtraTagBitOffset) 1"
| "Index AvxFmaT = push_bit (3 + ExtraTagBitOffset) 1"
| "Index NeonT = push_bit 0 1"
| "Index NeonFmaT = push_bit 1 1"
| "Index NeonFp16T = push_bit 2 1"
| "Index Simd128T = push_bit 0 1"

text \<open>
  \<^verbatim>\<open>BaseTagMask = (1 << ExtraTagBitOffset) - 1\<close>,
  \<^verbatim>\<open>ExtraTagMask = 0xffffffffu & ~BaseTagMask\<close>, and \<^verbatim>\<open>ExtraTagCount\<close>, which is 4 under
  \<^verbatim>\<open>CORRADE_TARGET_X86\<close> and 0 otherwise.
\<close>

definition BaseTagMask :: u32 where
  "BaseTagMask = push_bit ExtraTagBitOffset 1 - 1"

definition ExtraTagMask :: u32 where
  "ExtraTagMask = 0xffffffff AND NOT BaseTagMask"

definition ExtraTagCount :: "target \<Rightarrow> u32" where
  "ExtraTagCount t = (if t = X86 then 4 else 0)"

subsection \<open>Compile-time tag combinations (\<^verbatim>\<open>Implementation::Tags<value>\<close>)\<close>

text \<open>
  A \<^verbatim>\<open>Tags<value>\<close> carries nothing but its template argument, so it is modelled by that
  \<^verbatim>\<open>unsigned int\<close>. The operators return \<^verbatim>\<open>Tags<value | otherValue>\<close> and so on, with no
  condition on the operands.
\<close>

definition Tags_or :: "u32 \<Rightarrow> u32 \<Rightarrow> u32" where
  "Tags_or value otherValue = value OR otherValue"

definition Tags_and :: "u32 \<Rightarrow> u32 \<Rightarrow> u32" where
  "Tags_and value otherValue = value AND otherValue"

definition Tags_xor :: "u32 \<Rightarrow> u32 \<Rightarrow> u32" where
  "Tags_xor value otherValue = value XOR otherValue"

definition Tags_not :: "u32 \<Rightarrow> u32" where
  "Tags_not value = NOT value"

text \<open>
  \<^verbatim>\<open>IsTagConversionAllowed<value, otherValue>::Value\<close> guards the converting constructor
  \<^verbatim>\<open>Tags<value>::Tags(Tags<otherValue>)\<close>: \<open>otherValue\<close> is the combination converted from,
  \<open>value\<close> the one converted to. \<^verbatim>\<open>IsSingleTagConversionAllowed<value, otherIndex>::Value\<close>
  guards \<^verbatim>\<open>Tags<value>::Tags(T)\<close> with \<open>otherIndex = TypeTraits<T>::Index\<close>.
\<close>

definition IsTagConversionAllowed :: "u32 \<Rightarrow> u32 \<Rightarrow> bool" where
  "IsTagConversionAllowed value otherValue \<longleftrightarrow>
     (value AND BaseTagMask) AND ((value AND BaseTagMask) - 1) = 0 \<and>
     (otherValue AND BaseTagMask) AND ((otherValue AND BaseTagMask) - 1) = 0 \<and>
     (otherValue AND BaseTagMask) \<ge> (value AND BaseTagMask) \<and>
     (otherValue AND value) AND ExtraTagMask = value AND ExtraTagMask"

definition IsSingleTagConversionAllowed :: "u32 \<Rightarrow> u32 \<Rightarrow> bool" where
  "IsSingleTagConversionAllowed value otherIndex \<longleftrightarrow>
     (value AND BaseTagMask) AND ((value AND BaseTagMask) - 1) = 0 \<and>
     (otherIndex AND BaseTagMask) \<ge> (value AND BaseTagMask) \<and>
     (otherIndex AND value) AND ExtraTagMask = value AND ExtraTagMask"

subsection \<open>\<^verbatim>\<open>BitIndex\<close> and \<^verbatim>\<open>BitCount\<close>\<close>

text \<open>
  \<^verbatim>\<open>template<unsigned short A> struct BitIndex { Value = 1 + BitIndex<(A >> 1)>::Value }\<close>
  with the specialisation \<^verbatim>\<open>BitIndex<0>::Value = 0\<close>; the enumerators are
  \<^verbatim>\<open>unsigned short\<close>.
\<close>

function BitIndex :: "u16 \<Rightarrow> u16" where
  "BitIndex A = (if A = 0 then 0 else 1 + BitIndex (drop_bit 1 A))"
  by pat_completeness auto
termination
proof (relation "measure unat")
  show "wf (measure unat)" by simp
next
  fix A :: u16
  assume "A \<noteq> 0"
  then have "unat A \<noteq> 0" by (simp add: unat_eq_0)
  then show "(drop_bit 1 A, A) \<in> measure unat"
    by (simp add: drop_bit_eq_div unat_div)
qed

declare BitIndex.simps [simp del]

text \<open>\<^verbatim>\<open>template<unsigned short A> struct BitCount\<close>, enumerator by enumerator.\<close>

definition BitCount :: "u16 \<Rightarrow> u16" where
  "BitCount A =
    (let Bits1 = 0x5555; Bits2 = 0x3333; Bits4 = 0x0f0f; Bits8 = 0x00ff;
         B0 = drop_bit 0 A AND Bits1;
         B1 = drop_bit 1 A AND Bits1;
         C = B0 + B1;
         D0 = drop_bit 0 C AND Bits2;
         D2 = drop_bit 2 C AND Bits2;
         E = D0 + D2;
         F0 = drop_bit 0 E AND Bits4;
         F4 = drop_bit 4 E AND Bits4;
         G = F0 + F4;
         H0 = drop_bit 0 G AND Bits8;
         H8 = drop_bit 8 G AND Bits8
     in H0 + H8)"

subsection \<open>\<^verbatim>\<open>Implementation::priority\<close>\<close>

text \<open>
  A failed \<^verbatim>\<open>static_assert\<close>, a call with no viable overload, an ambiguous call and a
  macro expansion that is not a declaration all stop the build; they are the errors of the
  model.
\<close>

datatype build_error =
    MoreThanOneBaseTagUsed
  | ExtraTagOutOfExpectedBounds
  | OnlyExtraTagsShouldBeListed
  | NoMatchingFunction
  | AmbiguousCall
  | DispatcherPickFailed

text \<open>
  The type of a tag expression: a tag type \<open>T\<close>, or a combination \<^verbatim>\<open>Tags<value>\<close> (what
  \<^verbatim>\<open>operator|\<close> on two tags returns). \<^verbatim>\<open>Implementation::tags\<close> and
  \<^verbatim>\<open>Implementation::priority\<close> are each overloaded on the two.
\<close>

datatype tag_expr = Tag tag | Tags u32

fun tags :: "tag_expr \<Rightarrow> u32" where
  "tags (Tag T) = Index T"
| "tags (Tags value) = value"

text \<open>
  The return type of \<^verbatim>\<open>priority\<close> is written in its declaration: \<^verbatim>\<open>priority(T)\<close> is declared
  to return
  \<^verbatim>\<open>Priority<(Index & ExtraTagMask ? 1 : BitIndex<Index & BaseTagMask>::Value*(ExtraTagCount + 1))>\<close>
  and \<^verbatim>\<open>priority(Tags<value>)\<close> to return
  \<^verbatim>\<open>Priority<(BitIndex<value & BaseTagMask>::Value*(ExtraTagCount + 1)
  + BitCount<((value & ExtraTagMask) >> ExtraTagBitOffset)>::Value)>\<close>. \<open>priority_type\<close> is the
  template argument of that \<^verbatim>\<open>Priority<>\<close>. An unevaluated operand, \<^verbatim>\<open>decltype(priority(tag))\<close>,
  names the return type and instantiates the declaration only, not the function body.
\<close>

fun priority_type :: "target \<Rightarrow> tag_expr \<Rightarrow> u32" where
  "priority_type t (Tag T) =
     (if Index T AND ExtraTagMask \<noteq> 0 then 1
      else ucast (BitIndex (ucast (Index T AND BaseTagMask))) * (ExtraTagCount t + 1))"
| "priority_type t (Tags value) =
     ucast (BitIndex (ucast (value AND BaseTagMask))) * (ExtraTagCount t + 1)
     + ucast (BitCount (ucast (drop_bit ExtraTagBitOffset (value AND ExtraTagMask))))"

text \<open>
  An evaluated call \<^verbatim>\<open>priority(tag)\<close> instantiates the function body: that of
  \<^verbatim>\<open>priority(T)\<close> is \<^verbatim>\<open>return {};\<close>, that of \<^verbatim>\<open>priority(Tags<value>)\<close> has the two
  \<^verbatim>\<open>static_assert\<close>s (more than one base tag used; extra tag out of expected bounds) before
  it. The result is the template argument of the returned \<^verbatim>\<open>Priority<>\<close>.
\<close>

fun priority :: "target \<Rightarrow> tag_expr \<Rightarrow> build_error + u32" where
  "priority t (Tag T) = Inr (priority_type t (Tag T))"
| "priority t (Tags value) =
     (if (value AND BaseTagMask) AND ((value AND BaseTagMask) - 1) \<noteq> 0
        then Inl MoreThanOneBaseTagUsed
      else if \<not> drop_bit ExtraTagBitOffset (value AND ExtraTagMask)
                  < push_bit (unat (ExtraTagCount t)) 1
        then Inl ExtraTagOutOfExpectedBounds
      else Inr (priority_type t (Tags value)))"

text \<open>
  The tag types in the order of their \<^verbatim>\<open>TypeTraits\<close> specialisations: the hierarchy of base
  tags of a target, lowest first (\<^verbatim>\<open>Features earlier in the hierarchy should have lower bits set\<close>),
  and its extra tags.
\<close>

fun base_tag_types :: "target \<Rightarrow> tag list" where
  "base_tag_types X86 = [Sse2T, Sse3T, Ssse3T, Sse41T, Sse42T, AvxT, Avx2T, Avx512fT]"
| "base_tag_types ARM = [NeonT, NeonFmaT, NeonFp16T]"
| "base_tag_types WASM = [Simd128T]"
| "base_tag_types Other = []"

fun extra_tag_types :: "target \<Rightarrow> tag list" where
  "extra_tag_types X86 = [PopcntT, LzcntT, AvxF16cT, AvxFmaT]"
| "extra_tag_types t = []"

subsection \<open>Build configuration, \<^verbatim>\<open>compiledFeatures()\<close> and \<^verbatim>\<open>runtimeFeatures()\<close>\<close>

text \<open>
  The preprocessor macros the two functions test. \<^verbatim>\<open>LINUX\<close> stands for \<^verbatim>\<open>__linux__\<close>; the value
  of \<^verbatim>\<open>__ANDROID_API__\<close> is a field of the configuration.
\<close>

datatype macro =
    CORRADE_TARGET_SSE2 | CORRADE_TARGET_SSE3 | CORRADE_TARGET_SSSE3
  | CORRADE_TARGET_SSE41 | CORRADE_TARGET_SSE42
  | CORRADE_TARGET_POPCNT | CORRADE_TARGET_LZCNT
  | CORRADE_TARGET_AVX | CORRADE_TARGET_AVX_FMA | CORRADE_TARGET_AVX_F16C
  | CORRADE_TARGET_AVX2 | CORRADE_TARGET_AVX512F
  | CORRADE_TARGET_NEON | CORRADE_TARGET_NEON_FMA | CORRADE_TARGET_NEON_FP16
  | CORRADE_TARGET_SIMD128
  | CORRADE_TARGET_MSVC | CORRADE_TARGET_GCC | CORRADE_TARGET_APPLE
  | CORRADE_TARGET_ANDROID | LINUX

record build_config =
  target :: target
  defined :: "macro set"
  ANDROID_API :: nat

text \<open>\<^verbatim>\<open>#ifdef m\<close> \<open>v |\<close> \<^verbatim>\<open>#endif\<close> inside the braces of \<^verbatim>\<open>Features{... 0}\<close>.\<close>

definition ifdef :: "build_config \<Rightarrow> macro \<Rightarrow> u32 \<Rightarrow> u32" where
  "ifdef c m v = (if m \<in> defined c then v else 0)"

definition compiledFeatures :: "build_config \<Rightarrow> Features" where
  "compiledFeatures c = Features
    (case target c of
       X86 \<Rightarrow>
         ifdef c CORRADE_TARGET_SSE2 (Index Sse2T) OR
         ifdef c CORRADE_TARGET_SSE3 (Index Sse3T) OR
         ifdef c CORRADE_TARGET_SSSE3 (Index Ssse3T) OR
         ifdef c CORRADE_TARGET_SSE41 (Index Sse41T) OR
         ifdef c CORRADE_TARGET_SSE42 (Index Sse42T) OR
         ifdef c CORRADE_TARGET_POPCNT (Index PopcntT) OR
         ifdef c CORRADE_TARGET_LZCNT (Index LzcntT) OR
         ifdef c CORRADE_TARGET_AVX (Index AvxT) OR
         ifdef c CORRADE_TARGET_AVX_FMA (Index AvxFmaT) OR
         ifdef c CORRADE_TARGET_AVX_F16C (Index AvxF16cT) OR
         ifdef c CORRADE_TARGET_AVX2 (Index Avx2T) OR
         0
     | ARM \<Rightarrow>
         ifdef c CORRADE_TARGET_NEON (Index NeonT) OR
         ifdef c CORRADE_TARGET_NEON_FMA (Index NeonFmaT) OR
         ifdef c CORRADE_TARGET_NEON_FP16 (Index NeonFp16T) OR
         0
     | WASM \<Rightarrow>
         ifdef c CORRADE_TARGET_SIMD128 (Index Simd128T) OR
         0
     | Other \<Rightarrow> 0)"

text \<open>
  The condition under which \<^verbatim>\<open>runtimeFeatures()\<close> is only declared in the header and
  defined out of line (with CPUID, \<^verbatim>\<open>getauxval()\<close> or \<^verbatim>\<open>sysctlbyname()\<close>); otherwise it is
  \<^verbatim>\<open>constexpr Features runtimeFeatures() { return compiledFeatures(); }\<close>.
\<close>

definition runtime_detection :: "build_config \<Rightarrow> bool" where
  "runtime_detection c \<longleftrightarrow>
     (target c = X86 \<and> (CORRADE_TARGET_MSVC \<in> defined c \<or> CORRADE_TARGET_GCC \<in> defined c)) \<or>
     (target c = ARM \<and>
        ((LINUX \<in> defined c \<and> \<not> (CORRADE_TARGET_ANDROID \<in> defined c \<and> ANDROID_API c < 18)) \<or>
         CORRADE_TARGET_APPLE \<in> defined c))"

text \<open>
  The out-of-line definition is not part of the header; what it returns is the parameter
  \<open>detected\<close>.
\<close>

definition runtimeFeatures :: "build_config \<Rightarrow> Features \<Rightarrow> Features" where
  "runtimeFeatures c detected = (if runtime_detection c then detected else compiledFeatures c)"

subsection \<open>Runtime dispatch on the base tag (\<^verbatim>\<open>CORRADE_CPU_DISPATCHER_BASE\<close>)\<close>

text \<open>The constructors \<^verbatim>\<open>Features(T)\<close> and \<^verbatim>\<open>Features(Tags<value>)\<close>.\<close>

definition Features_of_tag :: "tag \<Rightarrow> Features" where
  "Features_of_tag T = Features (Index T)"


text \<open>
  The tags that the dispatcher macros of a target test, in the order of their \<^verbatim>\<open>if\<close>
  statements.
\<close>

fun dispatched_tags :: "target \<Rightarrow> tag list" where
  "dispatched_tags X86 = [Avx512fT, Avx2T, AvxT, Sse42T, Sse41T, Ssse3T, Sse3T, Sse2T]"
| "dispatched_tags ARM = [NeonFp16T, NeonFmaT, NeonT]"
| "dispatched_tags WASM = [Simd128T]"
| "dispatched_tags Other = []"

text \<open>
  The body shared by the dispatcher macros:
  \<^verbatim>\<open>if(cond(T1)) return call(T1); if(cond(T2)) return call(T2); ... return call(Scalar);\<close>
\<close>

fun dispatch_chain :: "(tag \<Rightarrow> bool) \<Rightarrow> (tag \<Rightarrow> 'r) \<Rightarrow> tag list \<Rightarrow> 'r" where
  "dispatch_chain cond call [] = call ScalarT"
| "dispatch_chain cond call (T # Ts) =
     (if cond T then call T else dispatch_chain cond call Ts)"

text \<open>
  \<^verbatim>\<open>CORRADE_CPU_DISPATCHER_BASE(type, function)\<close> defines \<^verbatim>\<open>type function(Features features)\<close>
  with the conditions \<^verbatim>\<open>features & Corrade::Cpu::T\<close> and the calls \<^verbatim>\<open>function(Corrade::Cpu::T)\<close>.
  The parameter \<open>function\<close> is the overload set that the calls resolve against.
\<close>

definition CORRADE_CPU_DISPATCHER_BASE :: "target \<Rightarrow> (tag \<Rightarrow> 'r) \<Rightarrow> Features \<Rightarrow> 'r" where
  "CORRADE_CPU_DISPATCHER_BASE t function features =
     dispatch_chain (\<lambda>T. Features_bool (Features_and features (Features_of_tag T)))
       function (dispatched_tags t)"

text \<open>
  The call \<^verbatim>\<open>function(Corrade::Cpu::T)\<close> against overloads that each take one tag type by
  value, \<open>declared\<close> listing those types. An overload taking \<open>T\<close> itself is an exact match;
  otherwise the argument converts to its base classes only, and the conversion to a nearer
  base class is the better one, so the overload of the nearest declared base class is
  called (\<^verbatim>\<open>Cpu.h\<close>: with AVX2, SSE4.2 and scalar variants, a call with \<^verbatim>\<open>Avx\<close> picks the
  SSE4.2 one). When none of them is viable, the call binds the one overload left, the
  dispatcher \<^verbatim>\<open>function(Features)\<close> itself, through the implicit constructor \<^verbatim>\<open>Features(T)\<close>;
  the dispatcher finds the bit of \<open>T\<close> and makes the same call again, so the call does not
  return: this is the value \<open>None\<close>.
\<close>

function overload_for_tag :: "tag list \<Rightarrow> tag \<Rightarrow> tag option" where
  "overload_for_tag declared T =
     (if T \<in> set declared then Some T
      else case base_class T of
             None \<Rightarrow> None
           | Some B \<Rightarrow> overload_for_tag declared B)"
  by pat_completeness auto
termination
proof (relation "measure (\<lambda>(declared, T). unat (Index T))")
  show "wf (measure (\<lambda>(declared, T). unat (Index T)))" by simp
next
  fix declared :: "tag list" and T B :: tag
  assume "base_class T = Some B"
  then show "((declared, B), (declared, T)) \<in> measure (\<lambda>(declared, T). unat (Index T))"
    by (cases T) simp_all
qed

declare overload_for_tag.simps [simp del]

subsection \<open>Runtime dispatch with extra tags (\<^verbatim>\<open>CORRADE_CPU_DISPATCHER\<close>)\<close>

text \<open>
  \<^verbatim>\<open>CORRADE_CPU_DECLARE(tag)\<close> expands to the two parameter types
  \<^verbatim>\<open>decltype(tags(tag)), decltype(priority(tag))\<close>, that is \<^verbatim>\<open>Tags<value>, Priority<p>\<close>. Both
  calls are unevaluated operands, so the body of \<^verbatim>\<open>priority\<close> with its \<^verbatim>\<open>static_assert\<close>s is not
  instantiated and the declaration builds for every tag expression.
  \<^verbatim>\<open>CORRADE_CPU_SELECT(tag)\<close> expands to the two arguments \<^verbatim>\<open>tag, priority(tag)\<close>, the second
  an evaluated call.
\<close>

definition CORRADE_CPU_DECLARE :: "target \<Rightarrow> tag_expr \<Rightarrow> u32 \<times> u32" where
  "CORRADE_CPU_DECLARE t e = (tags e, priority_type t e)"

definition CORRADE_CPU_SELECT :: "target \<Rightarrow> tag_expr \<Rightarrow> build_error + (tag_expr \<times> u32)" where
  "CORRADE_CPU_SELECT t e =
     (case priority t e of Inl err \<Rightarrow> Inl err | Inr q \<Rightarrow> Inr (e, q))"

text \<open>
  Overload resolution of a call with the arguments \<open>(a, Priority<q>)\<close> against overloads with
  the parameters \<open>(Tags<value>, Priority<p>)\<close>.

  The first argument converts to \<^verbatim>\<open>Tags<value>\<close> when it has that very type, or through a
  converting constructor of \<^verbatim>\<open>Tags<value>\<close>, which \<^verbatim>\<open>IsTagConversionAllowed\<close> (from a
  combination) or \<^verbatim>\<open>IsSingleTagConversionAllowed\<close> (from a tag) enables. \<^verbatim>\<open>Priority<q>\<close>
  derives from \<^verbatim>\<open>Priority<q - 1>\<close> and so on down to \<^verbatim>\<open>Priority<0>\<close>, so the second argument
  converts to \<^verbatim>\<open>Priority<p>\<close> exactly when \<open>p \<le> q\<close>.

  An overload is better than another when none of its conversions is worse and one is
  better. The identity is better than a converting constructor, two converting constructors
  of different classes are indistinguishable, and the conversion to a nearer base class
  (a larger \<open>p\<close>) is better. The call is that of the one viable overload better than every
  other viable one; with no viable overload or with no such best one the build fails. The
  dispatcher \<^verbatim>\<open>function(Features)\<close> takes one argument and is no candidate of these calls.
\<close>

fun convertible :: "tag_expr \<Rightarrow> u32 \<Rightarrow> bool" where
  "convertible (Tags otherValue) value \<longleftrightarrow>
     otherValue = value \<or> IsTagConversionAllowed value otherValue"
| "convertible (Tag T) value \<longleftrightarrow> IsSingleTagConversionAllowed value (Index T)"

definition viable :: "tag_expr \<times> u32 \<Rightarrow> u32 \<times> u32 \<Rightarrow> bool" where
  "viable args f \<longleftrightarrow> convertible (fst args) (fst f) \<and> snd f \<le> snd args"

definition exact :: "tag_expr \<Rightarrow> u32 \<Rightarrow> bool" where
  "exact a value \<longleftrightarrow> a = Tags value"

definition better :: "tag_expr \<times> u32 \<Rightarrow> u32 \<times> u32 \<Rightarrow> u32 \<times> u32 \<Rightarrow> bool" where
  "better args f g \<longleftrightarrow>
     (exact (fst args) (fst g) \<longrightarrow> exact (fst args) (fst f)) \<and> snd g \<le> snd f \<and>
     ((exact (fst args) (fst f) \<and> \<not> exact (fst args) (fst g)) \<or> snd g < snd f)"

definition call :: "(u32 \<times> u32) list \<Rightarrow> tag_expr \<times> u32 \<Rightarrow> build_error + u32" where
  "call overloads args =
     (let candidates = filter (viable args) overloads
      in case filter (\<lambda>f. \<forall>g\<in>set candidates. g = f \<or> better args f g) candidates of
           [] \<Rightarrow> Inl (if candidates = [] then NoMatchingFunction else AmbiguousCall)
         | [f] \<Rightarrow> Inr (fst f)
         | _ \<Rightarrow> Inl AmbiguousCall)"

text \<open>\<^verbatim>\<open>function(CORRADE_CPU_SELECT(e))\<close>; the result names the overload by its \<^verbatim>\<open>Tags<value>\<close>.\<close>

definition select_and_call :: "target \<Rightarrow> (u32 \<times> u32) list \<Rightarrow> tag_expr \<Rightarrow> build_error + u32" where
  "select_and_call t overloads e =
     (case CORRADE_CPU_SELECT t e of Inl err \<Rightarrow> Inl err | Inr args \<Rightarrow> call overloads args)"









subsection \<open>Auxiliary notions for the proofs\<close>

text \<open>The number of set bits of a natural number.\<close>

definition set_bits :: "nat \<Rightarrow> nat" where
  "set_bits x = card {i. bit x i}"

text \<open>
  One step of \<^verbatim>\<open>BitCount\<close> on natural numbers: \<^verbatim>\<open>((x >> 0) & m) + ((x >> s) & m)\<close>.
\<close>

definition stage :: "nat \<Rightarrow> nat \<Rightarrow> nat \<Rightarrow> nat" where
  "stage m s x = (x AND m) + (drop_bit s x AND m)"

text \<open>
  The base part of a combination whose base tag has hierarchy position \<open>r\<close>: nothing for
  \<open>r = 0\<close> (\<^verbatim>\<open>Scalar\<close>), bit \<open>i\<close> for \<open>r = i + 1\<close>.
\<close>

definition base_tag_at :: "nat \<Rightarrow> u32" where
  "base_tag_at r = (if r = 0 then 0 else push_bit (r - 1) 1)"

text \<open>
  \<open>a\<close> is at least as capable as \<open>b\<close>: each has at most one base bit, the base tag of \<open>a\<close>
  is the same as or a descendant of the base tag of \<open>b\<close> (its hierarchy position is not
  lower), and the extra bits of \<open>a\<close> are a superset of the extra bits of \<open>b\<close>.
\<close>

definition at_least_as_capable :: "u32 \<Rightarrow> u32 \<Rightarrow> bool" where
  "at_least_as_capable a b \<longleftrightarrow>
     (\<exists>s\<in>{..16}. \<exists>r\<in>{..s}.
        a AND BaseTagMask = base_tag_at s \<and> b AND BaseTagMask = base_tag_at r) \<and>
     (a AND ExtraTagMask) AND (b AND ExtraTagMask) = b AND ExtraTagMask"

text \<open>The number of base bits of a combination.\<close>

definition base_bits :: "u32 \<Rightarrow> nat" where
  "base_bits value = card {i. bit (value AND BaseTagMask) i}"

text \<open>The union of all base and extra tags of a target.\<close>

definition tag_bits :: "target \<Rightarrow> u32" where
  "tag_bits t = foldr (\<lambda>T v. Index T OR v) (base_tag_types t @ extra_tag_types t) 0"

text \<open>A list of tag types in which each derives from the next and the last from nothing.\<close>

fun inheritance_chain :: "tag list \<Rightarrow> bool" where
  "inheritance_chain [] \<longleftrightarrow> True"
| "inheritance_chain [T] \<longleftrightarrow> base_class T = None"
| "inheritance_chain (T # U # Ts) \<longleftrightarrow> base_class T = Some U \<and> inheritance_chain (U # Ts)"

text \<open>
  The first tag, from the highest rank down, that has a bit in common with the features;
  \<^verbatim>\<open>Scalar\<close> when there is none.
\<close>

definition dispatched_base :: "target \<Rightarrow> Features \<Rightarrow> tag" where
  "dispatched_base t features =
     (case find (\<lambda>T. Index T AND data features \<noteq> 0) (dispatched_tags t) of
        Some T \<Rightarrow> T | None \<Rightarrow> ScalarT)"

text \<open>The priority of the tag \<open>W\<close> is at most that of the tag \<open>V\<close>.\<close>

definition tag_priority_le :: "target \<Rightarrow> tag \<Rightarrow> tag \<Rightarrow> bool" where
  "tag_priority_le t W V \<longleftrightarrow>
     (case (priority t (Tag W), priority t (Tag V)) of
        (Inr pw, Inr pv) \<Rightarrow> pw \<le> pv
      | _ \<Rightarrow> False)"



text \<open>
  The preprocessor variable that enables a tag, as the documentation of the tags and of
  \<^verbatim>\<open>DefaultBase\<close> and \<^verbatim>\<open>DefaultExtra\<close> names it (\<^verbatim>\<open>Avx512f if CORRADE_TARGET_AVX512F is defined\<close>).
\<close>

fun enabling_macro :: "tag \<Rightarrow> macro option" where
  "enabling_macro ScalarT = None"
| "enabling_macro Sse2T = Some CORRADE_TARGET_SSE2"
| "enabling_macro Sse3T = Some CORRADE_TARGET_SSE3"
| "enabling_macro Ssse3T = Some CORRADE_TARGET_SSSE3"
| "enabling_macro Sse41T = Some CORRADE_TARGET_SSE41"
| "enabling_macro Sse42T = Some CORRADE_TARGET_SSE42"
| "enabling_macro PopcntT = Some CORRADE_TARGET_POPCNT"
| "enabling_macro LzcntT = Some CORRADE_TARGET_LZCNT"
| "enabling_macro AvxT = Some CORRADE_TARGET_AVX"
| "enabling_macro AvxF16cT = Some CORRADE_TARGET_AVX_F16C"
| "enabling_macro AvxFmaT = Some CORRADE_TARGET_AVX_FMA"
| "enabling_macro Avx2T = Some CORRADE_TARGET_AVX2"
| "enabling_macro Avx512fT = Some CORRADE_TARGET_AVX512F"
| "enabling_macro NeonT = Some CORRADE_TARGET_NEON"
| "enabling_macro NeonFmaT = Some CORRADE_TARGET_NEON_FMA"
| "enabling_macro NeonFp16T = Some CORRADE_TARGET_NEON_FP16"
| "enabling_macro Simd128T = Some CORRADE_TARGET_SIMD128"

section \<open>Properties\<close>

subsection \<open>Bit counting\<close>

lemma nat_bit_out_of_range: "l < 2 ^ k \<Longrightarrow> k \<le> i \<Longrightarrow> \<not> bit (l::nat) i"
  by (metis bit_take_bit_iff take_bit_nat_eq_self_iff not_le)

lemma finite_set_bits: "finite {i. bit (x::nat) i}"
proof -
  have "x < 2 ^ x" by simp
  then have "{i. bit x i} \<subseteq> {i. i < x}"
    using nat_bit_out_of_range [of x x] by (auto simp: not_le [symmetric])
  then show ?thesis by (rule finite_subset) simp
qed

lemma set_bits_cat:
  assumes "l < 2 ^ k"
  shows "set_bits (push_bit k h + l) = set_bits h + set_bits l"
proof -
  note nb = nat_bit_out_of_range [OF assms]
  have "push_bit k h + l = push_bit k h OR l"
    by (rule disjunctive_add_eq_or) (auto simp: bit_eq_iff bit_simps dest: nb)
  then have "{i. bit (push_bit k h + l) i} = {i. bit l i} \<union> (\<lambda>i. i + k) ` {i. bit h i}"
    apply (auto simp: bit_simps image_iff dest: nb)
    by (metis le_add_diff_inverse2)
  moreover have "{i. bit l i} \<inter> (\<lambda>i. i + k) ` {i. bit h i} = {}"
    using nb by auto
  moreover have "card ((\<lambda>i. i + k) ` {i. bit h i}) = card {i. bit h i}"
    by (rule card_image) (simp add: inj_on_def)
  ultimately show ?thesis
    by (simp add: set_bits_def card_Un_disjoint finite_set_bits)
qed

lemma and_le_nat: "(x::nat) AND m \<le> m"
proof -
  have "int (x AND m) \<le> int m"
    unfolding of_nat_and_eq by (rule AND_upper2) simp
  then show ?thesis by simp
qed

lemma stage_le: "stage m s x \<le> 2 * m"
  using and_le_nat [of x m] and_le_nat [of "drop_bit s x" m] by (simp add: stage_def)

lemma cat_parts:
  assumes "l < 2 ^ k"
  shows "drop_bit k (push_bit k h + l) = (h::nat)" and "take_bit k (push_bit k h + l) = l"
  using assms by (simp_all add: drop_bit_eq_div push_bit_eq_mult take_bit_eq_mod)

lemma and_cat:
  assumes "ml < 2 ^ k"
  shows "(y::nat) AND (push_bit k mh + ml) = push_bit k (drop_bit k y AND mh) + (take_bit k y AND ml)"
proof -
  let ?M = "push_bit k mh + ml"
  have "y AND ?M = push_bit k (drop_bit k (y AND ?M)) + take_bit k (y AND ?M)"
    by (rule bits_ident [symmetric])
  then show ?thesis
    by (simp add: drop_bit_and take_bit_and cat_parts [OF assms])
qed


lemma stage_cat:
  assumes ml: "take_bit (k - s) ml = ml" and sk: "s \<le> k" and l: "l < 2 ^ k"
  shows "stage (push_bit k mh + ml) s (push_bit k h + l) =
         push_bit k (stage mh s h) + stage ml s l"
proof -
  have "ml < 2 ^ (k - s)"
    using ml by (metis take_bit_nat_less_exp)
  also have "\<dots> \<le> 2 ^ k" by simp
  finally have mlk: "ml < 2 ^ k" .
  let ?x = "push_bit k h + l"
  have 1: "?x AND (push_bit k mh + ml) = push_bit k (h AND mh) + (l AND ml)"
    by (simp add: and_cat [OF mlk] cat_parts [OF l])
  have "take_bit k (drop_bit s ?x) AND take_bit (k - s) ml =
        drop_bit s (take_bit k ?x) AND take_bit (k - s) ml"
    using sk by (auto simp: bit_eq_iff bit_simps)
  then have "take_bit k (drop_bit s ?x) AND ml = drop_bit s l AND ml"
    by (simp add: ml cat_parts [OF l])
  moreover have "drop_bit k (drop_bit s ?x) = drop_bit s (drop_bit k ?x)"
    by (simp add: drop_bit_drop_bit add.commute)
  then have "drop_bit k (drop_bit s ?x) = drop_bit s h"
    by (simp only: cat_parts [OF l])
  ultimately have 2: "drop_bit s ?x AND (push_bit k mh + ml) =
      push_bit k (drop_bit s h AND mh) + (drop_bit s l AND ml)"
    by (simp only: and_cat [OF mlk])
  show ?thesis
    by (simp add: stage_def 1 2 push_bit_add)
qed


lemma combine_cat:
  assumes "h < 2 ^ k" "l < 2 ^ k"
  shows "stage (mask k) k (push_bit k h + l) = l + h"
  using assms by (simp add: stage_def cat_parts take_bit_nat_eq_self flip: take_bit_eq_mask)

lemma set_bits_0: "set_bits 0 = 0" by (simp add: set_bits_def)
lemma set_bits_1: "set_bits (Suc 0) = 1" by (simp add: set_bits_def bit_Suc_0_iff)


lemma set_bits_le:
  assumes "x < 2 ^ k"
  shows "set_bits x \<le> k"
proof -
  have "{i. bit x i} \<subseteq> {i. i < k}"
    using nat_bit_out_of_range [OF assms] by (auto simp: not_le [symmetric])
  then have "card {i. bit x i} \<le> card {i. i < k}"
    by (intro card_mono) simp_all
  then show ?thesis by (simp add: set_bits_def)
qed

lemma level_up:
  assumes f: "\<And>y. y < 2 ^ k \<Longrightarrow> f y = set_bits y"
    and split: "\<And>h l. h < 2 ^ k \<Longrightarrow> l < 2 ^ k \<Longrightarrow> F (push_bit k h + l) = push_bit k (f h) + f l"
    and x: "x < 2 ^ (2 * k)"
  shows "stage (mask k) k (F x) = set_bits x"
proof -
  define h l where "h = drop_bit k x" and "l = take_bit k x"
  have l: "l < 2 ^ k" by (simp add: l_def)
  have h: "h < 2 ^ k"
    using x by (simp add: h_def drop_bit_eq_div less_mult_imp_div_less power_add mult_2)
  have xhl: "x = push_bit k h + l"
    by (simp add: h_def l_def bits_ident)
  have kk: "k < 2 ^ k" by simp
  have b: "set_bits h < 2 ^ k" "set_bits l < 2 ^ k"
    using set_bits_le [OF h] set_bits_le [OF l] kk by linarith+
  have "F x = push_bit k (set_bits h) + set_bits l"
    by (simp add: xhl split h l f)
  then have "stage (mask k) k (F x) = set_bits l + set_bits h"
    by (simp add: combine_cat b)
  also have "\<dots> = set_bits x"
    by (simp add: xhl set_bits_cat l)
  finally show ?thesis .
qed

lemma swar_1: "y < 2 ^ 1 \<Longrightarrow> y = set_bits y"
proof -
  assume "y < 2 ^ 1"
  then have "y = 0 \<or> y = Suc 0" by auto
  then show ?thesis by (auto simp: set_bits_0 set_bits_1)
qed

lemma swar_2: "y < 2 ^ 2 \<Longrightarrow> stage 1 1 y = set_bits y"
  using level_up [of 1 "\<lambda>y. y" "\<lambda>y. y" y] swar_1 by simp

lemma swar_4: "y < 2 ^ 4 \<Longrightarrow> stage 3 2 (stage 5 1 y) = set_bits y"
proof -
  have "stage 5 1 (push_bit 2 h + l) = push_bit 2 (stage 1 1 h) + stage 1 1 l"
    if "l < 2 ^ 2" for h l
    using stage_cat [of 2 1 1 l 1 h] that by (simp add: push_bit_eq_mult take_bit_eq_mod)
  then show "y < 2 ^ 4 \<Longrightarrow> stage 3 2 (stage 5 1 y) = set_bits y"
    using level_up [of 2 "stage 1 1" "stage 5 1" y] swar_2 by (simp add: mask_eq_exp_minus_1)
qed

lemma swar_8: "y < 2 ^ 8 \<Longrightarrow> stage 15 4 (stage 51 2 (stage 85 1 y)) = set_bits y"
proof -
  have "stage 51 2 (stage 85 1 (push_bit 4 h + l)) =
        push_bit 4 (stage 3 2 (stage 5 1 h)) + stage 3 2 (stage 5 1 l)"
    if "l < 2 ^ 4" for h l
  proof -
    have "stage 5 1 l < 2 ^ 4"
      using stage_le [of 5 1 l] by simp
    then show ?thesis
      using stage_cat [of 4 1 5 l 5 h] stage_cat [of 4 2 3 "stage 5 1 l" 3 "stage 5 1 h"] that
      by (simp add: push_bit_eq_mult take_bit_eq_mod)
  qed
  then show "y < 2 ^ 8 \<Longrightarrow> stage 15 4 (stage 51 2 (stage 85 1 y)) = set_bits y"
    using level_up [of 4 "\<lambda>y. stage 3 2 (stage 5 1 y)" "\<lambda>y. stage 51 2 (stage 85 1 y)" y] swar_4
    by (simp add: mask_eq_exp_minus_1)
qed

lemma swar_16:
  "x < 2 ^ 16 \<Longrightarrow> stage 255 8 (stage 3855 4 (stage 13107 2 (stage 21845 1 x))) = set_bits x"
proof -
  have "stage 3855 4 (stage 13107 2 (stage 21845 1 (push_bit 8 h + l))) =
        push_bit 8 (stage 15 4 (stage 51 2 (stage 85 1 h))) + stage 15 4 (stage 51 2 (stage 85 1 l))"
    if "l < 2 ^ 8" for h l
  proof -
    have 1: "stage 85 1 l < 2 ^ 8"
      using stage_le [of 85 1 l] by simp
    have 2: "stage 51 2 (stage 85 1 l) < 2 ^ 8"
      using stage_le [of 51 2 "stage 85 1 l"] by simp
    show ?thesis
      using stage_cat [of 8 1 85 l 85 h] 1 2 that
        stage_cat [of 8 2 51 "stage 85 1 l" 51 "stage 85 1 h"]
        stage_cat [of 8 4 15 "stage 51 2 (stage 85 1 l)" 15 "stage 51 2 (stage 85 1 h)"]
      by (simp add: push_bit_eq_mult take_bit_eq_mod)
  qed
  then show "x < 2 ^ 16 \<Longrightarrow> stage 255 8 (stage 3855 4 (stage 13107 2 (stage 21845 1 x))) = set_bits x"
    using level_up [of 8 "\<lambda>y. stage 15 4 (stage 51 2 (stage 85 1 y))"
        "\<lambda>y. stage 3855 4 (stage 13107 2 (stage 21845 1 y))" x] swar_8
    by (simp add: mask_eq_exp_minus_1)
qed


lemma unat_stage:
  fixes x m :: u16
  assumes "2 * unat m < 2 ^ 16"
  shows "unat ((x AND m) + (drop_bit s x AND m)) = stage (unat m) s (unat x)"
proof -
  have "unat (x AND m) + unat (drop_bit s x AND m) \<le> 2 * unat m"
    using and_le_nat [of "unat x" "unat m"] and_le_nat [of "drop_bit s (unat x)" "unat m"]
    by (simp add: unsigned_and_eq unat_drop_bit_eq)
  with assms have "unat (x AND m) + unat (drop_bit s x AND m) < 2 ^ LENGTH(16)"
    by simp
  then have "unat ((x AND m) + (drop_bit s x AND m)) = unat (x AND m) + unat (drop_bit s x AND m)"
    by (simp only: unat_add_lem)
  then show ?thesis
    by (simp add: stage_def unsigned_and_eq unat_drop_bit_eq)
qed

lemma set_bits_unat: "set_bits (unat (A::'a::len word)) = card {i. bit A i}"
proof -
  have "{i. bit (unat A) i} = {i. bit A i}"
    by (auto simp: bit_unsigned_iff dest: bit_imp_le_length)
  then show ?thesis by (simp add: set_bits_def)
qed

lemma BitCount_popcount: "unat (BitCount A) = card {i. bit A i}"
proof -
  have "unat (BitCount A) =
      stage 255 8 (stage 3855 4 (stage 13107 2 (stage 21845 1 (unat A))))"
    using unat_stage [of "0x5555" A 1]  by (simp add: BitCount_def Let_def unat_stage)
  also have "\<dots> = set_bits (unat A)"
  proof (rule swar_16)
    have "unat A < 2 ^ LENGTH(16)"
      by (rule unsigned_less)
    then show "unat A < 2 ^ 16" by simp
  qed
  finally show ?thesis by (simp add: set_bits_unat)
qed

lemma BitIndex_floorlog: "unat (BitIndex A) = floorlog 2 (unat A)"
proof (induction A rule: BitIndex.induct)
  case (1 A)
  show ?case
  proof (cases "A = 0")
    case True
    then show ?thesis by (simp add: BitIndex.simps compute_floorlog)
  next
    case False
    then have pos: "0 < unat A" by (simp add: unat_gt_0)
    have "unat A < 2 ^ LENGTH(16)"
      by (rule unsigned_less)
    then have "unat A div 2 < 2 ^ 15"
      by simp
    then have "floorlog 2 (unat A div 2) \<le> 15"
      by (intro floorlog_leI) simp_all
    moreover have "unat (BitIndex (drop_bit 1 A)) = floorlog 2 (unat A div 2)"
      using 1 False by (simp add: drop_bit_eq_div unat_div)
    ultimately have "unat (1 + BitIndex (drop_bit 1 A)) = 1 + floorlog 2 (unat A div 2)"
      by (simp add: unat_word_ariths)
    then show ?thesis
      using False pos by (simp add: BitIndex.simps [of A] compute_floorlog [of 2 "unat A"])
  qed
qed


subsection \<open>Algebra of feature sets\<close>

text \<open>
  Claim C7. For all Features values A and B: \<open>A|B\<close> is a superset of both A and B, \<open>A&B\<close> is
  a subset of both A and B, \<open>~~A == A\<close>, \<open>A|A == A\<close> and \<open>A&A == A\<close>, where subset and
  superset are \<^verbatim>\<open>Features::operator<=\<close> and \<^verbatim>\<open>Features::operator>=\<close> and equality is
  \<^verbatim>\<open>Features::operator==\<close>.
\<close>

theorem Features_algebra:
  "Features_ge (Features_or A B) A \<and> Features_ge (Features_or A B) B \<and>
   Features_le (Features_and A B) A \<and> Features_le (Features_and A B) B \<and>
   Features_eq (Features_not (Features_not A)) A \<and>
   Features_eq (Features_or A A) A \<and>
   Features_eq (Features_and A A) A"
  by (simp add: Features_ge_def Features_le_def Features_eq_def Features_or_def
      Features_and_def Features_not_def bit_eq_iff bit_simps) blast

lemma masks: "BaseTagMask = 0xffff" "ExtraTagMask = 0xffff0000"
  by (simp_all add: BaseTagMask_def ExtraTagMask_def ExtraTagBitOffset_def)

lemma pow2_and_pred: "(2 ^ i :: 'a::len word) AND (2 ^ i - 1) = 0"
  unfolding mask_eq_exp_minus_1 [symmetric]
  by (rule bit_eqI) (auto simp: bit_simps)

lemma one_base_check: "base_tag_at r AND (base_tag_at r - 1) = 0"
  using pow2_and_pred [of "r - 1", where ?'a = 32] by (simp add: base_tag_at_def)


lemma BitIndex_pow2:
  assumes "i < 16"
  shows "BitIndex (2 ^ i) = of_nat (Suc i)"
proof -
  have "unat (2 ^ i :: u16) = 2 ^ i"
    by (rule bit_eqI) (use assms in \<open>auto simp: bit_simps\<close>)
  then have "unat (BitIndex (2 ^ i)) = Suc i"
    using floorlog_power [of 1 2 i] by (simp add: BitIndex_floorlog compute_floorlog)
  then have "(of_nat (unat (BitIndex (2 ^ i))) :: u16) = of_nat (Suc i)"
    by (simp only:)
  then show ?thesis
    by (simp add: of_nat_unat)
qed

lemma BitIndex_base_tag_at:
  assumes "r \<le> 16"
  shows "BitIndex (ucast (base_tag_at r)) = of_nat r"
proof (cases r)
  case 0
  then show ?thesis by (simp add: base_tag_at_def BitIndex.simps)
next
  case (Suc i)
  with assms have i: "i < 16" by simp
  have "(ucast (2 ^ i :: u32) :: u16) = 2 ^ i"
    by (rule bit_eqI) (use i in \<open>auto simp: bit_simps\<close>) 
  with Suc show ?thesis
    using BitIndex_pow2 [OF i] by (simp add: base_tag_at_def)
qed

text \<open>
  Claim C10. For every unsigned 16-bit value A, \<^verbatim>\<open>BitCount<A>::Value\<close> is the number of set
  bits of A, and \<^verbatim>\<open>BitIndex<A>::Value\<close> is 0 when A is 0 and \<open>1 + floor (log2 A)\<close>
  otherwise; so for a single-bit base tag at bit \<open>i\<close> it is \<open>i + 1\<close>, the base rank used by
  the priority computation.
\<close>

theorem BitCount_BitIndex_value:
  "unat (BitCount A) = card {i. bit A i} \<and>
   unat (BitIndex A) = (if A = 0 then 0 else 1 + nat \<lfloor>log 2 (real (unat A))\<rfloor>) \<and>
   (\<forall>i<16. BitIndex (2 ^ i) = of_nat (i + 1))"
proof (intro conjI allI impI)
  show "unat (BitCount A) = card {i. bit A i}"
    by (rule BitCount_popcount)
  show "unat (BitIndex A) = (if A = 0 then 0 else 1 + nat \<lfloor>log 2 (real (unat A))\<rfloor>)"
    by (simp add: BitIndex_floorlog floorlog_def unat_gt_0)
  show "BitIndex (2 ^ i) = of_nat (i + 1)" if "i < 16" for i
    using BitIndex_pow2 [OF that] by simp
qed

theorem BitCount_BitIndex_value_witness:
  "(3::nat) < 16 \<and> BitIndex (2 ^ 3) = 4 \<and> unat (BitCount 0x00f1) = 5 \<and>
   card {i. bit (0x00f1 :: u16) i} = 5 \<and> unat (BitIndex 0x00f1) = 8"
proof -
  have "unat (BitCount 0x00f1) = 5"
    by (simp add: BitCount_def)
  moreover have "BitIndex 0x00f1 = 8"
    by (simp add: BitIndex.simps)
  moreover have "\<forall>i<16. BitIndex (2 ^ i) = of_nat (i + 1)"
    using BitCount_BitIndex_value [of "0x00f1"] by (elim conjE)
  then have "(3::nat) < 16 \<longrightarrow> BitIndex (2 ^ 3) = of_nat (3 + 1)"
    by (rule spec)
  then have "BitIndex (2 ^ 3) = 4"
    by simp
  ultimately show ?thesis
    using BitCount_BitIndex_value [of "0x00f1"] by simp
qed

subsection \<open>Priority\<close>

lemma extra_part: "drop_bit ExtraTagBitOffset (value AND ExtraTagMask) = drop_bit 16 (value::u32)"
proof -
  have "drop_bit 16 (0xffff0000 :: u32) = 0xffff" by simp
  also have "\<dots> = mask 16" by (simp add: mask_eq_exp_minus_1)
  finally have "drop_bit 16 (value AND 0xffff0000) = drop_bit 16 value AND mask 16"
    by (simp add: drop_bit_and)
  also have "\<dots> = drop_bit 16 value"
    by (rule bit_eqI) (auto simp: bit_simps dest: bit_imp_le_length)
  finally show ?thesis by (simp add: masks ExtraTagBitOffset_def)
qed


lemma ucast_32_16_bits:
  assumes "x < 2 ^ 16"
  shows "card {i. bit (ucast (x::u32) :: u16) i} = card {i. bit x i}"
proof -
  have "\<not> bit x i" if "16 \<le> i" for i
    using assms that
    by (metis bit_take_bit_iff less_mask_eq not_le take_bit_eq_mask)
  then have "{i. bit (ucast x :: u16) i} = {i. bit x i}"
    by (auto simp: bit_simps not_le [symmetric])
  then show ?thesis by simp
qed

lemma drop_bit_16_less: "drop_bit 16 (value::u32) < 2 ^ 16"
proof -
  have "unat (drop_bit 16 value) < 2 ^ 16"
    using unsigned_less [of "value", where ?'a = nat]
    by (simp add: drop_bit_eq_div unat_div less_mult_imp_div_less)
  then show ?thesis
    by (simp add: word_less_nat_alt)
qed

lemma ucast_16_32: "(ucast (w::u16) :: u32) = of_nat (unat w)"
  by (simp add: of_nat_unat)

lemma priority_Tags_value:
  assumes base: "value AND BaseTagMask = base_tag_at r" and r: "r \<le> 16"
    and extra: "drop_bit 16 value < 2 ^ unat (ExtraTagCount t)"
  shows "priority t (Tags value) =
    Inr (of_nat (r * (unat (ExtraTagCount t) + 1) + card {i. bit (drop_bit 16 value) i}))"
proof -
  have "unat (BitCount (ucast (drop_bit 16 value))) = card {i. bit (drop_bit 16 value) i}"
    by (simp only: BitCount_popcount ucast_32_16_bits [OF drop_bit_16_less])
  then have c: "ucast (BitCount (ucast (drop_bit 16 value))) =
      (of_nat (card {i. bit (drop_bit 16 value) i}) :: u32)"
    by (simp only: ucast_16_32)
  have "unat (BitIndex (ucast (base_tag_at r))) = r"
    using r by (simp add: BitIndex_base_tag_at unat_of_nat)
  then have b: "(ucast (BitIndex (ucast (base_tag_at r))) :: u32) = of_nat r"
    by (simp only: ucast_16_32)
  have e: "ExtraTagCount t + 1 = of_nat (unat (ExtraTagCount t) + 1)"
    by (simp add: ExtraTagCount_def)
  have "priority t (Tags value) =
      Inr (ucast (BitIndex (ucast (base_tag_at r))) * (ExtraTagCount t + 1)
           + ucast (BitCount (ucast (drop_bit 16 value))))"
    using extra unfolding priority.simps priority_type.simps base extra_part
    by (simp add: one_base_check)
  also have "\<dots> = Inr (of_nat (r * (unat (ExtraTagCount t) + 1)
       + card {i. bit (drop_bit 16 value) i}))"
    unfolding b c e by (simp only: of_nat_add of_nat_mult)
  finally show ?thesis .
qed


lemma set_bits_3: "set_bits 3 = 2"
proof -
  have "set_bits (push_bit 1 (Suc 0) + Suc 0) = set_bits (Suc 0) + set_bits (Suc 0)"
    by (rule set_bits_cat) simp
  moreover have "push_bit 1 (Suc 0) + Suc 0 = (3::nat)"
    by simp
  ultimately show ?thesis
    by (simp only: set_bits_1)
qed


lemma priority_Tag_Tags:
  assumes "tag_defined t T"
  shows "priority t (Tag T) = priority t (Tags (Index T))"
  using assms
  by (cases t; cases T;
      simp add: masks ExtraTagBitOffset_def ExtraTagCount_def BitIndex.simps BitCount_def)

text \<open>
  Claim C1. For every combination with at most one base bit set (its base part is
  \<open>base_tag_at r\<close> for a hierarchy position \<open>r\<close>, 0 for \<^verbatim>\<open>Scalar\<close> and \<open>i + 1\<close> for the base
  tag at bit \<open>i\<close>) and extra bits within the defined extra range, \<^verbatim>\<open>priority\<close> computes
  \<open>r * (ExtraTagCount + 1) + popcount (extra bits)\<close>, with \<^verbatim>\<open>ExtraTagCount\<close> 4 on x86 and 0
  elsewhere. The overload of \<^verbatim>\<open>priority\<close> for a single tag of the target gives what the
  overload for combinations gives on that tag.
\<close>

theorem priority_formula:
  assumes "value AND BaseTagMask = base_tag_at r" and "r \<le> 16"
    and "drop_bit 16 value < 2 ^ unat (ExtraTagCount t)"
  shows "priority t (Tags value) =
      Inr (of_nat (r * (unat (ExtraTagCount t) + 1) + card {i. bit (drop_bit 16 value) i})) \<and>
    unat (ExtraTagCount t) = (if t = X86 then 4 else 0) \<and>
    (tag_defined t T \<longrightarrow> priority t (Tag T) = priority t (Tags (Index T)))"
  using priority_Tags_value [OF assms] priority_Tag_Tags [of t T]
  by (simp add: ExtraTagCount_def)

theorem priority_formula_witness:
  "(0x30040 :: u32) AND BaseTagMask = base_tag_at 7 \<and> (7::nat) \<le> 16 \<and>
   drop_bit 16 (0x30040 :: u32) < 2 ^ unat (ExtraTagCount X86) \<and>
   priority X86 (Tags 0x30040) = Inr 37 \<and>
   tag_defined X86 Avx2T \<and> priority X86 (Tag Avx2T) = priority X86 (Tags (Index Avx2T))"
proof -
  have 1: "(0x30040 :: u32) AND BaseTagMask = base_tag_at 7"
    by (simp add: masks base_tag_at_def)
  have 2: "drop_bit 16 (0x30040 :: u32) < 2 ^ unat (ExtraTagCount X86)"
    by (simp add: ExtraTagCount_def)
  have "drop_bit 16 (0x30040 :: u32) = 3"
    by simp
  moreover have "card {i. bit (3 :: u32) i} = set_bits (unat (3 :: u32))"
    by (simp only: set_bits_unat)
  moreover have "unat (3 :: u32) = 3"
    by simp
  ultimately have "card {i. bit (drop_bit 16 (0x30040 :: u32)) i} = 2"
    by (simp only: set_bits_3)
  with priority_formula [OF 1 _ 2, of Avx2T] 1 2 show ?thesis
    by (simp add: ExtraTagCount_def)
qed

lemma ExtraTagCount_le: "unat (ExtraTagCount t) \<le> 4"
  by (simp add: ExtraTagCount_def)

lemma card_bits_le:
  fixes x :: u32
  assumes "x < 2 ^ k" and "k < 32"
  shows "card {i. bit x i} \<le> k"
proof -
  have "unat (2 ^ k :: u32) = 2 ^ k"
    by (rule bit_eqI) (use assms in \<open>auto simp: bit_simps\<close>)
  with assms have "unat x < 2 ^ k"
    by (simp add: word_less_nat_alt)
  then have "set_bits (unat x) \<le> k"
    by (rule set_bits_le)
  then show ?thesis
    by (simp only: set_bits_unat)
qed

lemma word_of_nat_less:
  "a < b \<Longrightarrow> b < 2 ^ 32 \<Longrightarrow> (of_nat a :: u32) < of_nat b"
  by (simp add: word_less_nat_alt unat_of_nat)

lemma priority_Tags_less:
  assumes A: "A AND BaseTagMask = base_tag_at i" and B: "B AND BaseTagMask = base_tag_at j"
    and ij: "i < j" and j: "j \<le> 16"
    and eA: "drop_bit 16 A < 2 ^ unat (ExtraTagCount t)"
    and eB: "drop_bit 16 B < 2 ^ unat (ExtraTagCount t)"
  shows "\<exists>pa pb. priority t (Tags A) = Inr pa \<and> priority t (Tags B) = Inr pb \<and> pa < pb"
proof -
  define E where "E = unat (ExtraTagCount t)"
  define ca where "ca = card {i. bit (drop_bit 16 A) i}"
  define cb where "cb = card {i. bit (drop_bit 16 B) i}"
  have E: "E \<le> 4"
    by (simp add: E_def ExtraTagCount_le)
  have ca: "ca \<le> E" and cb: "cb \<le> E"
    using eA eB E by (simp_all add: ca_def cb_def E_def card_bits_le)
  from ij j have i: "i \<le> 16" by simp
  have pa: "priority t (Tags A) = Inr (of_nat (i * (E + 1) + ca))"
    unfolding E_def ca_def by (rule priority_Tags_value [OF A i eA])
  have pb: "priority t (Tags B) = Inr (of_nat (j * (E + 1) + cb))"
    unfolding E_def cb_def by (rule priority_Tags_value [OF B j eB])
  have "i * (E + 1) + ca < Suc i * (E + 1)"
    using ca by simp
  also have "\<dots> \<le> j * (E + 1)"
    using ij by (intro mult_le_mono1) simp
  finally have lt: "i * (E + 1) + ca < j * (E + 1) + cb"
    by simp
  have "j * (E + 1) \<le> 16 * 5"
    using j E by (intro mult_le_mono) simp_all
  with cb E have "j * (E + 1) + cb < 2 ^ 32"
    by simp
  with lt have "(of_nat (i * (E + 1) + ca) :: u32) < of_nat (j * (E + 1) + cb)"
    by (rule word_of_nat_less)
  with pa pb show ?thesis by blast
qed

text \<open>
  Claim C2. Priority is strictly monotonic in base rank: for two combinations A and B with
  base tiers \<open>i < j\<close>, \<open>priority B > priority A\<close> whatever extra tags either carries.
\<close>

theorem priority_strictly_monotonic:
  assumes "A AND BaseTagMask = base_tag_at i" and "B AND BaseTagMask = base_tag_at j"
    and "i < j" and "j \<le> 16"
    and "drop_bit 16 A < 2 ^ unat (ExtraTagCount t)"
    and "drop_bit 16 B < 2 ^ unat (ExtraTagCount t)"
  shows "\<exists>pa pb. priority t (Tags A) = Inr pa \<and> priority t (Tags B) = Inr pb \<and> pa < pb"
  using assms by (rule priority_Tags_less)

theorem priority_strictly_monotonic_witness:
  "(0xf0010 :: u32) AND BaseTagMask = base_tag_at 5 \<and>
   (0x20 :: u32) AND BaseTagMask = base_tag_at 6 \<and> (5::nat) < 6 \<and> (6::nat) \<le> 16 \<and>
   drop_bit 16 (0xf0010 :: u32) < 2 ^ unat (ExtraTagCount X86) \<and>
   drop_bit 16 (0x20 :: u32) < 2 ^ unat (ExtraTagCount X86) \<and>
   (\<exists>pa pb. priority X86 (Tags 0xf0010) = Inr pa \<and> priority X86 (Tags 0x20) = Inr pb \<and> pa < pb)"
proof -
  have 1: "(0xf0010 :: u32) AND BaseTagMask = base_tag_at 5"
    and 2: "(0x20 :: u32) AND BaseTagMask = base_tag_at 6"
    by (simp_all add: masks base_tag_at_def)
  have 3: "drop_bit 16 (0xf0010 :: u32) < 2 ^ unat (ExtraTagCount X86)"
    and 4: "drop_bit 16 (0x20 :: u32) < 2 ^ unat (ExtraTagCount X86)"
    by (simp_all add: ExtraTagCount_def)
  show ?thesis
    using priority_strictly_monotonic [OF 1 2 _ _ 3 4] 1 2 3 4 by simp
qed

subsection \<open>Powers of two and base bits\<close>

lemma nat_and_pred:
  fixes n :: nat
  shows "n AND (n - 1) = 0 \<longleftrightarrow> n = 0 \<or> (\<exists>i. n = 2 ^ i)"
proof (induction n rule: less_induct)
  case (less n)
  show ?case
  proof (cases "n = 0")
    case True
    then show ?thesis by simp
  next
    case n0: False
    show ?thesis
    proof (cases "even n")
      case True
      then obtain m where m: "n = 2 * m" by (elim evenE)
      with n0 have m0: "m \<noteq> 0" by simp
      have "(n - 1) div 2 = m - 1"
        using m m0 by simp
      moreover have "n div 2 = m" using m by simp
      ultimately have "n AND (n - 1) = 2 * (m AND (m - 1))"
        using and_rec [of n "n - 1"] True by simp
      moreover have "m AND (m - 1) = 0 \<longleftrightarrow> m = 0 \<or> (\<exists>i. m = 2 ^ i)"
        using m m0 by (intro less) simp
      moreover have "(\<exists>i. m = 2 ^ i) \<longleftrightarrow> (\<exists>i. n = 2 ^ i)"
      proof
        assume "\<exists>i. m = 2 ^ i"
        then obtain i where "m = 2 ^ i" ..
        then have "n = 2 ^ Suc i" using m by simp
        then show "\<exists>i. n = 2 ^ i" ..
      next
        assume "\<exists>i. n = 2 ^ i"
        then obtain i where i: "n = 2 ^ i" ..
        with True n0 have "i \<noteq> 0" by (cases i) auto
        then obtain j where "i = Suc j" by (cases i) auto
        with i m have "m = 2 ^ j" by simp
        then show "\<exists>i. m = 2 ^ i" ..
      qed
      ultimately show ?thesis using m0 n0 by simp
    next
      case False
      then obtain m where m: "n = 2 * m + 1" by (elim oddE)
      have "n AND (n - 1) = 2 * m"
        using and_rec [of n "n - 1"] m by simp
      moreover have "(\<exists>i. n = 2 ^ i) \<longleftrightarrow> m = 0"
      proof
        assume "\<exists>i. n = 2 ^ i"
        then obtain i where i: "n = 2 ^ i" ..
        with False have "i = 0" by (cases i) auto
        with i m show "m = 0" by simp
      next
        assume "m = 0"
        with m have "n = 2 ^ 0" by simp
        then show "\<exists>i. n = 2 ^ i" ..
      qed
      ultimately show ?thesis using n0 by simp
    qed
  qed
qed


lemma pow2_less_D: "(2::nat) ^ i < 2 ^ n \<Longrightarrow> i < n"
  by simp

lemma unat_exp_u32: "i < 32 \<Longrightarrow> unat (2 ^ i :: u32) = 2 ^ i"
  by (rule bit_eqI) (auto simp: bit_simps)

lemma word_and_pred:
  fixes b :: u32
  shows "b AND (b - 1) = 0 \<longleftrightarrow> b = 0 \<or> (\<exists>i<32. b = 2 ^ i)"
proof (cases "b = 0")
  case True
  then show ?thesis by simp
next
  case False
  then have "unat (b AND (b - 1)) = unat b AND (unat b - 1)"
    by (simp add: unsigned_and_eq unat_minus_one)
  then have "b AND (b - 1) = 0 \<longleftrightarrow> unat b AND (unat b - 1) = 0"
    by (metis unat_eq_0)
  also have "\<dots> \<longleftrightarrow> (\<exists>i. unat b = 2 ^ i)"
    using False nat_and_pred [of "unat b"] by (simp add: unat_eq_0)
  also have "\<dots> \<longleftrightarrow> (\<exists>i<32. b = 2 ^ i)"
  proof
    assume "\<exists>i. unat b = 2 ^ i"
    then obtain i where i: "unat b = 2 ^ i" ..
    have "unat b < 2 ^ LENGTH(32)" by (rule unsigned_less)
    with i have "(2::nat) ^ i < 2 ^ 32" by simp
    then have "i < 32" by (rule pow2_less_D)
    moreover from i have "of_nat (unat b) = (of_nat (2 ^ i) :: u32)" by simp
    then have "b = 2 ^ i" by (simp add: of_nat_unat)
    ultimately show "\<exists>i<32. b = 2 ^ i" by blast
  next
    assume "\<exists>i<32. b = 2 ^ i"
    then obtain i where "i < 32" "b = 2 ^ i" by blast
    then have "unat b = 2 ^ i" by (simp add: unat_exp_u32)
    then show "\<exists>i. unat b = 2 ^ i" ..
  qed
  finally show ?thesis using False by simp
qed

lemma base_part_less: "(value :: u32) AND BaseTagMask < 2 ^ 16"
proof -
  have "value AND BaseTagMask \<le> BaseTagMask"
    by (rule word_and_le1)
  then show ?thesis
    by (simp add: masks word_le_nat_alt word_less_nat_alt)
qed

lemma base_tag_at_cases:
  "b = 0 \<or> (\<exists>i<16. b = 2 ^ i) \<longleftrightarrow> (\<exists>r\<le>16. b = base_tag_at r)"
proof
  assume "b = 0 \<or> (\<exists>i<16. b = 2 ^ i)"
  then show "\<exists>r\<le>16. b = base_tag_at r"
  proof
    assume "b = 0"
    then have "b = base_tag_at 0" by (simp add: base_tag_at_def)
    then show ?thesis by blast
  next
    assume "\<exists>i<16. b = 2 ^ i"
    then obtain i where "i < 16" "b = 2 ^ i" by blast
    then have "Suc i \<le> 16" "b = base_tag_at (Suc i)" by (simp_all add: base_tag_at_def)
    then show ?thesis by blast
  qed
next
  assume "\<exists>r\<le>16. b = base_tag_at r"
  then obtain r where r: "r \<le> 16" "b = base_tag_at r" by blast
  show "b = 0 \<or> (\<exists>i<16. b = 2 ^ i)"
  proof (cases r)
    case 0
    with r show ?thesis by (simp add: base_tag_at_def)
  next
    case (Suc i)
    with r have "i < 16" "b = 2 ^ i" by (simp_all add: base_tag_at_def)
    then show ?thesis by blast
  qed
qed

lemma one_base_iff:
  "(value AND BaseTagMask) AND ((value AND BaseTagMask) - 1) = 0 \<longleftrightarrow>
   (\<exists>r\<le>16. value AND BaseTagMask = base_tag_at r)"
proof -
  let ?b = "value AND BaseTagMask"
  have "(\<exists>i<32. ?b = 2 ^ i) \<longleftrightarrow> (\<exists>i<16. ?b = 2 ^ i)"
  proof
    assume "\<exists>i<32. ?b = 2 ^ i"
    then obtain i where i: "i < 32" "?b = 2 ^ i" by blast
    have "unat ?b < 2 ^ 16"
      using base_part_less [of "value"] by (simp add: word_less_nat_alt)
    with i have "(2::nat) ^ i < 2 ^ 16" by (simp add: unat_exp_u32)
    then have "i < 16" by (rule pow2_less_D)
    with i show "\<exists>i<16. ?b = 2 ^ i" by blast
  next
    assume "\<exists>i<16. ?b = 2 ^ i"
    then obtain i where "i < 16" "?b = 2 ^ i" by blast
    then have "i < 32" "?b = 2 ^ i" by simp_all
    then show "\<exists>i<32. ?b = 2 ^ i" by blast
  qed
  then show ?thesis
    by (simp only: word_and_pred base_tag_at_cases)
qed

lemma base_tag_at_mono:
  assumes "r \<le> 16" "s \<le> 16"
  shows "base_tag_at r \<le> base_tag_at s \<longleftrightarrow> r \<le> s"
proof -
  have "unat (base_tag_at k) = (if k = 0 then 0 else 2 ^ (k - 1))" if "k \<le> 16" for k
    using that by (simp add: base_tag_at_def unat_exp_u32)
  then show ?thesis
    using assms by (cases r; cases s) (simp_all add: word_le_nat_alt)
qed

lemma IsTagConversionAllowed_iff:
  "IsTagConversionAllowed value otherValue \<longleftrightarrow> at_least_as_capable otherValue value"
proof -
  have ex: "(otherValue AND value) AND ExtraTagMask =
      (otherValue AND ExtraTagMask) AND (value AND ExtraTagMask)"
    by (rule bit_eqI) (auto simp: bit_simps)
  have "IsTagConversionAllowed value otherValue \<longleftrightarrow>
      (\<exists>r\<le>16. value AND BaseTagMask = base_tag_at r) \<and>
      (\<exists>s\<le>16. otherValue AND BaseTagMask = base_tag_at s) \<and>
      value AND BaseTagMask \<le> otherValue AND BaseTagMask \<and>
      (otherValue AND ExtraTagMask) AND (value AND ExtraTagMask) = value AND ExtraTagMask"
    by (simp only: IsTagConversionAllowed_def one_base_iff ex)
  also have "\<dots> \<longleftrightarrow> at_least_as_capable otherValue value"
  proof (intro iffI)
    assume h: "(\<exists>r\<le>16. value AND BaseTagMask = base_tag_at r) \<and>
      (\<exists>s\<le>16. otherValue AND BaseTagMask = base_tag_at s) \<and>
      value AND BaseTagMask \<le> otherValue AND BaseTagMask \<and>
      (otherValue AND ExtraTagMask) AND (value AND ExtraTagMask) = value AND ExtraTagMask"
    then obtain r s where r: "r \<le> 16" "value AND BaseTagMask = base_tag_at r"
      and s: "s \<le> 16" "otherValue AND BaseTagMask = base_tag_at s"
      by blast
    with h have "r \<le> s"
      by (simp add: base_tag_at_mono)
    with r s h show "at_least_as_capable otherValue value"
      unfolding at_least_as_capable_def by (intro conjI bexI [of _ s] bexI [of _ r]) simp_all
  next
    assume "at_least_as_capable otherValue value"
    then obtain r s where s: "s \<le> 16" "otherValue AND BaseTagMask = base_tag_at s"
      and r: "r \<le> s" "value AND BaseTagMask = base_tag_at r"
      and e: "(otherValue AND ExtraTagMask) AND (value AND ExtraTagMask) = value AND ExtraTagMask"
      unfolding at_least_as_capable_def by auto
    from r s have r16: "r \<le> 16" by simp
    with r s have "value AND BaseTagMask \<le> otherValue AND BaseTagMask"
      by (simp add: base_tag_at_mono)
    with r s r16 e show "(\<exists>r\<le>16. value AND BaseTagMask = base_tag_at r) \<and>
      (\<exists>s\<le>16. otherValue AND BaseTagMask = base_tag_at s) \<and>
      value AND BaseTagMask \<le> otherValue AND BaseTagMask \<and>
      (otherValue AND ExtraTagMask) AND (value AND ExtraTagMask) = value AND ExtraTagMask"
      by blast
  qed
  finally show ?thesis .
qed


lemma set_bits_rec:
  assumes "0 < n"
  shows "set_bits n = n mod 2 + set_bits (n div 2)"
proof -
  have "set_bits (push_bit 1 (n div 2) + n mod 2) = set_bits (n div 2) + set_bits (n mod 2)"
    by (rule set_bits_cat) simp
  moreover have "set_bits (n mod 2) = n mod 2"
    by (rule swar_1 [symmetric]) simp
  moreover have "push_bit 1 (n div 2) + n mod 2 = n"
    by (simp add: push_bit_eq_mult)
  ultimately show ?thesis by (simp only: add.commute)
qed

lemmas set_bits_numeral = set_bits_rec [of "numeral k" for k, simplified]

lemma base_bits_eq: "base_bits value = set_bits (unat (value AND BaseTagMask))"
  by (simp only: base_bits_def set_bits_unat)

lemma base_bits_le_1_iff:
  "base_bits value \<le> 1 \<longleftrightarrow>
   (value AND BaseTagMask) AND ((value AND BaseTagMask) - 1) = 0"
proof -
  let ?b = "value AND BaseTagMask"
  have "card {n. bit ?b n} \<le> 1 \<longleftrightarrow> ?b = 0 \<or> (\<exists>i<32. ?b = 2 ^ i)"
  proof
    assume c: "card {n. bit ?b n} \<le> 1"
    show "?b = 0 \<or> (\<exists>i<32. ?b = 2 ^ i)"
    proof (cases "{n. bit ?b n} = {}")
      case True
      then have "?b = 0" by (intro bit_eqI) auto
      then show ?thesis ..
    next
      case False
      then obtain i where i: "bit ?b i" by auto
      have "{n. bit ?b n} = {i}"
      proof (rule ccontr)
        assume "{n. bit ?b n} \<noteq> {i}"
        with i obtain j where j: "bit ?b j" "j \<noteq> i" by auto
        with i have "{i, j} \<subseteq> {n. bit ?b n}" by simp
        then have "card {i, j} \<le> card {n. bit ?b n}"
          by (intro card_mono) simp_all
        with j c show False by simp
      qed
      then have "bit ?b n \<longleftrightarrow> n = i" for n by auto
      moreover from i have "i < 32" by (auto dest: bit_imp_le_length)
      ultimately have "?b = 2 ^ i"
        by (intro bit_eqI) (auto simp: bit_simps)
      with \<open>i < 32\<close> show ?thesis by blast
    qed
  next
    assume "?b = 0 \<or> (\<exists>i<32. ?b = 2 ^ i)"
    then show "card {n. bit ?b n} \<le> 1"
    proof
      assume "?b = 0"
      then show ?thesis by simp
    next
      assume "\<exists>i<32. ?b = 2 ^ i"
      then obtain i where "i < 32" "?b = 2 ^ i" by blast
      then have "{n. bit ?b n} = {i}" by (auto simp: bit_simps)
      then show ?thesis by simp
    qed
  qed
  then show ?thesis
    by (simp only: base_bits_def word_and_pred)
qed

lemma two_base_bits:
  assumes a: "a AND BaseTagMask = 2 ^ i" and b: "b AND BaseTagMask = 2 ^ j"
    and ij: "i < 16" "j < 16" "i \<noteq> j"
  shows "(a OR b) AND BaseTagMask = 2 ^ i OR 2 ^ j" and "base_bits (a OR b) = 2"
proof -
  show 1: "(a OR b) AND BaseTagMask = 2 ^ i OR 2 ^ j"
    by (simp add: a b bit.conj_disj_distrib2)
  have "{n. bit ((2 ^ i :: u32) OR 2 ^ j) n} = {i, j}"
    using ij by (auto simp: bit_simps)
  with ij show "base_bits (a OR b) = 2"
    by (simp add: base_bits_def 1)
qed


lemma Index_one_base: "(Index T AND BaseTagMask) AND ((Index T AND BaseTagMask) - 1) = 0"
  by (cases T) (simp_all add: masks ExtraTagBitOffset_def)

lemma IsSingleTagConversionAllowed_Index:
  "IsSingleTagConversionAllowed value (Index T) \<longleftrightarrow> IsTagConversionAllowed value (Index T)"
  by (simp only: IsSingleTagConversionAllowed_def IsTagConversionAllowed_def Index_one_base) simp

subsection \<open>Conversions between tag combinations\<close>

text \<open>
  Claim C5, as stated: a conversion from a source combination to a target combination is
  permitted exactly when the target is at least as capable as the source. The converting
  constructor of \<^verbatim>\<open>Tags<value>\<close> takes a \<^verbatim>\<open>Tags<otherValue>\<close>, so the target is \<open>value\<close> and the
  source is \<open>otherValue\<close>. The conversion from \<^verbatim>\<open>Avx2\<close> to \<^verbatim>\<open>Sse2\<close> is permitted although \<^verbatim>\<open>Sse2\<close>
  is not at least as capable as \<^verbatim>\<open>Avx2\<close>.
\<close>

theorem conversion_counterexample:
  "IsTagConversionAllowed (Index Sse2T) (Index Avx2T) \<and>
   \<not> at_least_as_capable (Index Sse2T) (Index Avx2T)"
proof -
  have "IsTagConversionAllowed (Index Sse2T) (Index Avx2T)"
    by (simp add: IsTagConversionAllowed_def masks)
  moreover have "\<not> IsTagConversionAllowed (Index Avx2T) (Index Sse2T)"
    by (simp add: IsTagConversionAllowed_def masks word_le_nat_alt)
  ultimately show ?thesis
    by (simp only: IsTagConversionAllowed_iff) simp
qed

text \<open>
  Claim C5, amended: the conversion is permitted exactly when the source is at least as
  capable as the target: both have at most one base bit, the source's base tag is the same
  as or a descendant of the target's, and the source's extra bits are a superset of the
  target's. The constructor from a single tag \<open>T\<close> follows the same rule with
  \<^verbatim>\<open>TypeTraits<T>::Index\<close> as the source.
\<close>

theorem conversion_allowed_iff:
  "(IsTagConversionAllowed value otherValue \<longleftrightarrow> at_least_as_capable otherValue value) \<and>
   (IsSingleTagConversionAllowed value (Index T) \<longleftrightarrow> at_least_as_capable (Index T) value)"
  by (simp only: IsSingleTagConversionAllowed_Index IsTagConversionAllowed_iff)

theorem conversion_allowed_iff_witness:
  "IsTagConversionAllowed 0x10001 0x30040 \<and> at_least_as_capable 0x30040 0x10001 \<and>
   IsSingleTagConversionAllowed 0x1 (Index Avx2T) \<and> at_least_as_capable (Index Avx2T) 0x1"
proof -
  have "IsTagConversionAllowed 0x10001 0x30040"
    by (simp add: IsTagConversionAllowed_def masks)
  moreover have "IsSingleTagConversionAllowed 0x1 (Index Avx2T)"
    by (simp add: IsSingleTagConversionAllowed_def masks)
  ultimately show ?thesis
    using conversion_allowed_iff [of "0x10001" "0x30040" Avx2T]
      conversion_allowed_iff [of "0x1" "0x30040" Avx2T] by simp
qed

subsection \<open>Composing two different base tags\<close>

text \<open>
  Claim C6, as stated: composing two sets that carry different base bits is rejected rather
  than silently producing a set with more than one base bit. \<^verbatim>\<open>operator|\<close> of \<^verbatim>\<open>Tags\<close> and of
  \<^verbatim>\<open>Features\<close> has no condition: \<^verbatim>\<open>Sse2 | Avx2\<close> is the combination \<open>0x41\<close>, with two base bits.
\<close>

theorem composition_counterexample:
  "Tags_or (Index Sse2T) (Index Avx2T) = 0x41 \<and> base_bits 0x41 = 2 \<and>
   Features_or (Features (Index Sse2T)) (Features (Index Avx2T)) = Features 0x41"
  by (simp add: Tags_or_def Features_or_def base_bits_eq masks set_bits_numeral set_bits_1 set_bits_0)

lemma two_base_priority:
  assumes "(v AND BaseTagMask) AND ((v AND BaseTagMask) - 1) \<noteq> 0"
  shows "priority t (Tags v) = Inl MoreThanOneBaseTagUsed"
  unfolding priority.simps priority_type.simps using assms by (rule if_P)

lemma two_base_select:
  assumes "(v AND BaseTagMask) AND ((v AND BaseTagMask) - 1) \<noteq> 0"
  shows "CORRADE_CPU_SELECT t (Tags v) = Inl MoreThanOneBaseTagUsed"
    and "select_and_call t overloads (Tags v) = Inl MoreThanOneBaseTagUsed"
  using two_base_priority [OF assms, of t]
  by (simp_all add: CORRADE_CPU_SELECT_def select_and_call_def)

text \<open>
  Claim C6, amended: composing two sets with different base bits is not rejected by the
  composition: \<^verbatim>\<open>operator|\<close> of \<^verbatim>\<open>Tags\<close> and of \<^verbatim>\<open>Features\<close> returns the union with its two base
  bits. The union is rejected where \<^verbatim>\<open>priority\<close> is evaluated on it: there the \<^verbatim>\<open>static_assert\<close>
  (more than one base tag used) fails, so \<^verbatim>\<open>CORRADE_CPU_SELECT\<close> of the union and every call
  \<^verbatim>\<open>function(CORRADE_CPU_SELECT(...))\<close> with it stop the build, whatever the overloads. No
  conversion of \<^verbatim>\<open>Tags\<close> from or to the union is permitted.
\<close>

theorem composition_of_different_base_tags:
  assumes "a AND BaseTagMask = 2 ^ i" and "b AND BaseTagMask = 2 ^ j"
    and "i < 16" and "j < 16" and "i \<noteq> j"
  shows "Tags_or a b = a OR b \<and>
    Features_or (Features a) (Features b) = Features (a OR b) \<and>
    base_bits (a OR b) = 2 \<and>
    priority t (Tags (Tags_or a b)) = Inl MoreThanOneBaseTagUsed \<and>
    CORRADE_CPU_SELECT t (Tags (Tags_or a b)) = Inl MoreThanOneBaseTagUsed \<and>
    select_and_call t overloads (Tags (Tags_or a b)) = Inl MoreThanOneBaseTagUsed \<and>
    \<not> IsTagConversionAllowed (Tags_or a b) x \<and>
    \<not> IsTagConversionAllowed x (Tags_or a b) \<and>
    \<not> IsSingleTagConversionAllowed (Tags_or a b) x"
proof -
  have 2: "base_bits (a OR b) = 2"
    using assms by (rule two_base_bits)
  then have "\<not> base_bits (a OR b) \<le> 1" by simp
  then have n: "((a OR b) AND BaseTagMask) AND (((a OR b) AND BaseTagMask) - 1) \<noteq> 0"
    unfolding base_bits_le_1_iff .
  have "priority t (Tags (a OR b)) = Inl MoreThanOneBaseTagUsed"
    using n by (rule two_base_priority)
  moreover have "CORRADE_CPU_SELECT t (Tags (a OR b)) = Inl MoreThanOneBaseTagUsed"
    and "select_and_call t overloads (Tags (a OR b)) = Inl MoreThanOneBaseTagUsed"
    using n by (rule two_base_select)+
  moreover have "\<not> IsTagConversionAllowed (a OR b) x"
    and "\<not> IsTagConversionAllowed x (a OR b)"
    and "\<not> IsSingleTagConversionAllowed (a OR b) x"
    unfolding IsTagConversionAllowed_def IsSingleTagConversionAllowed_def
    using n by blast+
  ultimately show ?thesis
    using 2 by (simp add: Tags_or_def Features_or_def)
qed

theorem composition_of_different_base_tags_witness:
  "(0x1 :: u32) AND BaseTagMask = 2 ^ 0 \<and> (0x40 :: u32) AND BaseTagMask = 2 ^ 6 \<and>
   (0::nat) < 16 \<and> (6::nat) < 16 \<and> (0::nat) \<noteq> 6 \<and>
   Tags_or 0x1 0x40 = 0x41 \<and>
   priority X86 (Tags 0x41) = Inl MoreThanOneBaseTagUsed \<and>
   CORRADE_CPU_SELECT X86 (Tags 0x41) = Inl MoreThanOneBaseTagUsed \<and>
   select_and_call X86 [(0, 0), (0x41, 35)] (Tags 0x41) = Inl MoreThanOneBaseTagUsed \<and>
   \<not> IsTagConversionAllowed 0x41 0x41"
proof -
  have 1: "(0x1 :: u32) AND BaseTagMask = 2 ^ 0" and 2: "(0x40 :: u32) AND BaseTagMask = 2 ^ 6"
    by (simp_all add: masks)
  show ?thesis
    using composition_of_different_base_tags [OF 1 2, of X86 "[(0, 0), (0x41, 35)]" "0x41"] 1 2
    by (simp add: Tags_or_def)
qed

subsection \<open>Compiled and runtime features\<close>

text \<open>
  Claim C8. On a platform with no detection path compiled in (no CPUID, \<^verbatim>\<open>getauxval()\<close> or
  \<^verbatim>\<open>sysctlbyname()\<close>), \<^verbatim>\<open>runtimeFeatures()\<close> returns exactly \<^verbatim>\<open>compiledFeatures()\<close>, whatever a
  detection would have found.
\<close>

theorem runtimeFeatures_without_detection:
  assumes "\<not> runtime_detection c"
  shows "runtimeFeatures c detected = compiledFeatures c \<and>
         Features_eq (runtimeFeatures c detected) (compiledFeatures c)"
  using assms by (simp add: runtimeFeatures_def Features_eq_def)

theorem runtimeFeatures_without_detection_witness:
  "\<not> runtime_detection \<lparr>target = WASM, defined = {CORRADE_TARGET_SIMD128}, ANDROID_API = 0\<rparr> \<and>
   runtimeFeatures \<lparr>target = WASM, defined = {CORRADE_TARGET_SIMD128}, ANDROID_API = 0\<rparr>
     (Features 0xff) = Features 1 \<and>
   compiledFeatures \<lparr>target = WASM, defined = {CORRADE_TARGET_SIMD128}, ANDROID_API = 0\<rparr>
     = Features 1"
proof -
  let ?c = "\<lparr>target = WASM, defined = {CORRADE_TARGET_SIMD128}, ANDROID_API = 0\<rparr>"
  have 1: "\<not> runtime_detection ?c"
    by (simp add: runtime_detection_def)
  have 2: "compiledFeatures ?c = Features 1"
    by (simp add: compiledFeatures_def ifdef_def)
  show ?thesis
    using runtimeFeatures_without_detection [OF 1, of "Features 0xff"] 1 2 by simp
qed

lemma ifdef_and: "ifdef c m v AND z = ifdef c m (v AND z)"
  by (simp add: ifdef_def)

lemma ifdef_0: "ifdef c m 0 = 0"
  by (simp add: ifdef_def)

lemma compiledFeatures_within_tag_bits:
  "data (compiledFeatures c) AND NOT (tag_bits (target c)) = 0"
  by (cases "target c")
    (simp_all add: compiledFeatures_def tag_bits_def ExtraTagBitOffset_def
      bit.conj_disj_distrib2 ifdef_and ifdef_0)

lemma base_tag_types_Index:
  "map Index (base_tag_types t) = map (\<lambda>i. 2 ^ i) [0..<length (base_tag_types t)]"
  by (cases t) (simp_all add: upt_rec)

lemma extra_tag_types_Index:
  "map Index (extra_tag_types t) =
   map (\<lambda>i. 2 ^ (ExtraTagBitOffset + i)) [0..<unat (ExtraTagCount t)]"
  by (cases t) (simp_all add: upt_rec ExtraTagCount_def ExtraTagBitOffset_def)

lemma tag_defined_iff:
  "tag_defined t T \<longleftrightarrow> T = ScalarT \<or> T \<in> set (base_tag_types t) \<or> T \<in> set (extra_tag_types t)"
  by (cases t; cases T) simp_all

lemma Index_base_bits: "base_bits (Index T) \<le> 1"
  by (simp only: base_bits_le_1_iff Index_one_base)

lemma priority_base_bits:
  assumes "priority t e = Inr p"
  shows "base_bits (tags e) \<le> 1"
proof (cases e)
  case (Tag T)
  then show ?thesis using Index_base_bits [of T] by simp
next
  case (Tags v)
  with assms have "(v AND BaseTagMask) AND ((v AND BaseTagMask) - 1) = 0"
    by (simp split: if_splits)
  then have "base_bits v \<le> 1"
    by (simp only: base_bits_le_1_iff)
  with Tags show ?thesis by simp
qed

lemma conversion_base_bits:
  assumes "IsTagConversionAllowed v w"
  shows "base_bits v \<le> 1 \<and> base_bits w \<le> 1"
  using assms unfolding IsTagConversionAllowed_def base_bits_le_1_iff by blast


text \<open>
  Claim C9, as stated: every set the library produces, the result of \<^verbatim>\<open>compiledFeatures()\<close>
  and \<^verbatim>\<open>runtimeFeatures()\<close> included, has 0 or 1 base bits. When the build enables SSE2 and
  SSE3, \<^verbatim>\<open>compiledFeatures()\<close> is \<^verbatim>\<open>Sse2|Sse3\<close>, and so is \<^verbatim>\<open>runtimeFeatures()\<close> on a compiler
  with no detection path.
\<close>

theorem compiledFeatures_counterexample:
  "compiledFeatures
     \<lparr>target = X86, defined = {CORRADE_TARGET_SSE2, CORRADE_TARGET_SSE3}, ANDROID_API = 0\<rparr>
     = Features 3 \<and>
   runtimeFeatures
     \<lparr>target = X86, defined = {CORRADE_TARGET_SSE2, CORRADE_TARGET_SSE3}, ANDROID_API = 0\<rparr>
     (Features 0) = Features 3 \<and>
   base_bits 3 = 2"
  by (simp add: compiledFeatures_def runtimeFeatures_def runtime_detection_def ifdef_def
      base_bits_eq masks set_bits_numeral set_bits_1 set_bits_0)

lemma ifdef_eq: "v \<noteq> 0 \<Longrightarrow> ifdef c m v = v \<longleftrightarrow> m \<in> defined c"
  by (auto simp: ifdef_def)

lemma compiledFeatures_tag:
  assumes "tag_defined (target c) T" and "T \<noteq> ScalarT" and "T \<noteq> Avx512fT"
  shows "Features_ge (compiledFeatures c) (Features_of_tag T) \<longleftrightarrow>
         (\<exists>m. enabling_macro T = Some m \<and> m \<in> defined c)"
  using assms
  by (cases "target c"; cases T)
    (simp_all add: Features_ge_def Features_of_tag_def compiledFeatures_def
      ExtraTagBitOffset_def bit.conj_disj_distrib2 ifdef_and ifdef_0 ifdef_eq)

lemma compiledFeatures_only_enabled:
  assumes "tag_defined (target c) T" and "T \<noteq> ScalarT"
    and "Features_ge (compiledFeatures c) (Features_of_tag T)"
  shows "\<exists>m. enabling_macro T = Some m \<and> m \<in> defined c"
proof (cases "T = Avx512fT")
  case True
  have "\<not> Features_ge (compiledFeatures c) (Features_of_tag Avx512fT)"
    by (cases "target c")
      (simp_all add: Features_ge_def Features_of_tag_def compiledFeatures_def
        ExtraTagBitOffset_def bit.conj_disj_distrib2 ifdef_and ifdef_0 ifdef_eq)
  with True assms(3) show ?thesis by simp
next
  case False
  with assms show ?thesis by (simp add: compiledFeatures_tag)
qed

lemma select_base_bits:
  assumes "CORRADE_CPU_SELECT t e = Inr a"
  shows "base_bits (tags e) \<le> 1"
proof -
  from assms obtain p where "priority t e = Inr p"
    by (auto simp: CORRADE_CPU_SELECT_def split: sum.splits)
  then show ?thesis by (rule priority_base_bits)
qed

text \<open>
  Claim C9, amended: the base tags of a target occupy the bits from 0 upwards without gaps
  and its extra tags the bits from 16 upwards without gaps, and every defined tag is
  \<^verbatim>\<open>Scalar\<close>, a base tag or an extra tag; every tag constant, every combination on which
  \<^verbatim>\<open>priority\<close> is evaluated without a failed \<^verbatim>\<open>static_assert\<close> (as the argument of
  \<^verbatim>\<open>CORRADE_CPU_SELECT\<close>) and both sides of every permitted conversion have 0 or 1 base bits.
  The result of \<^verbatim>\<open>compiledFeatures()\<close>, and of \<^verbatim>\<open>runtimeFeatures()\<close> where it falls back to it, has
  bits of the target's tags only; it holds the bit of a tag only if the build defines the
  preprocessor variable of that tag, and it holds the bit of every tag other than
  \<^verbatim>\<open>Avx512f\<close> whose variable the build defines. It can so carry several base bits, two when the
  build enables SSE2 and SSE3.
\<close>

theorem capability_set_layout:
  "map Index (base_tag_types t) = map (\<lambda>i. 2 ^ i) [0..<length (base_tag_types t)] \<and>
   map Index (extra_tag_types t) =
     map (\<lambda>i. 2 ^ (ExtraTagBitOffset + i)) [0..<unat (ExtraTagCount t)] \<and>
   (tag_defined t T \<longleftrightarrow>
      T = ScalarT \<or> T \<in> set (base_tag_types t) \<or> T \<in> set (extra_tag_types t)) \<and>
   base_bits (Index T) \<le> 1 \<and>
   (priority t e = Inr p \<longrightarrow> base_bits (tags e) \<le> 1) \<and>
   (CORRADE_CPU_SELECT t e = Inr a \<longrightarrow> base_bits (tags e) \<le> 1) \<and>
   (IsTagConversionAllowed v w \<longrightarrow> base_bits v \<le> 1 \<and> base_bits w \<le> 1) \<and>
   data (compiledFeatures c) AND NOT (tag_bits (target c)) = 0 \<and>
   (tag_defined (target c) U \<and> U \<noteq> ScalarT \<and>
    Features_ge (compiledFeatures c) (Features_of_tag U) \<longrightarrow>
      (\<exists>m. enabling_macro U = Some m \<and> m \<in> defined c)) \<and>
   (tag_defined (target c) U \<and> U \<noteq> Avx512fT \<and>
    (\<exists>m. enabling_macro U = Some m \<and> m \<in> defined c) \<longrightarrow>
      Features_ge (compiledFeatures c) (Features_of_tag U)) \<and>
   base_bits (data (compiledFeatures
     \<lparr>target = X86, defined = {CORRADE_TARGET_SSE2, CORRADE_TARGET_SSE3}, ANDROID_API = 0\<rparr>))
     = 2 \<and>
   (\<not> runtime_detection c \<longrightarrow> runtimeFeatures c d = compiledFeatures c)"
proof -
  have 1: "tag_defined (target c) U \<and> U \<noteq> ScalarT \<and>
      Features_ge (compiledFeatures c) (Features_of_tag U) \<longrightarrow>
      (\<exists>m. enabling_macro U = Some m \<and> m \<in> defined c)"
    using compiledFeatures_only_enabled [of c U] by blast
  have 2: "tag_defined (target c) U \<and> U \<noteq> Avx512fT \<and>
      (\<exists>m. enabling_macro U = Some m \<and> m \<in> defined c) \<longrightarrow>
      Features_ge (compiledFeatures c) (Features_of_tag U)"
  proof (intro impI, elim conjE)
    assume U: "tag_defined (target c) U" "U \<noteq> Avx512fT"
      and m: "\<exists>m. enabling_macro U = Some m \<and> m \<in> defined c"
    from m have "U \<noteq> ScalarT" by auto
    with U have "Features_ge (compiledFeatures c) (Features_of_tag U) \<longleftrightarrow>
        (\<exists>m. enabling_macro U = Some m \<and> m \<in> defined c)"
      by (intro compiledFeatures_tag)
    with m show "Features_ge (compiledFeatures c) (Features_of_tag U)"
      by blast
  qed
  have 3: "base_bits (data (compiledFeatures
      \<lparr>target = X86, defined = {CORRADE_TARGET_SSE2, CORRADE_TARGET_SSE3}, ANDROID_API = 0\<rparr>))
      = 2"
    by (simp add: compiledFeatures_def ifdef_def base_bits_eq masks set_bits_numeral
        set_bits_1 set_bits_0)
  have 4: "\<not> runtime_detection c \<longrightarrow> runtimeFeatures c d = compiledFeatures c"
    by (simp add: runtimeFeatures_def)
  have 5: "priority t e = Inr p \<longrightarrow> base_bits (tags e) \<le> 1"
    using priority_base_bits [of t e p] by blast
  have 6: "CORRADE_CPU_SELECT t e = Inr a \<longrightarrow> base_bits (tags e) \<le> 1"
    using select_base_bits [of t e a] by blast
  have 7: "IsTagConversionAllowed v w \<longrightarrow> base_bits v \<le> 1 \<and> base_bits w \<le> 1"
    using conversion_base_bits [of v w] by blast
  from base_tag_types_Index [of t] extra_tag_types_Index [of t] tag_defined_iff [of t T]
    Index_base_bits [of T] 5 6 7 compiledFeatures_within_tag_bits [of c] 1 2 3 4
  show ?thesis
    by (intro conjI)
qed

theorem capability_set_layout_witness:
  "priority X86 (Tags 0x30040) = Inr 37 \<and>
   CORRADE_CPU_SELECT X86 (Tags 0x30040) = Inr (Tags 0x30040, 37) \<and>
   base_bits 0x30040 \<le> 1 \<and>
   IsTagConversionAllowed 0x10001 0x30040 \<and> base_bits 0x10001 \<le> 1 \<and>
   tag_defined X86 Sse3T \<and>
   Features_ge (compiledFeatures
     \<lparr>target = X86, defined = {CORRADE_TARGET_SSE2, CORRADE_TARGET_SSE3}, ANDROID_API = 0\<rparr>)
     (Features_of_tag Sse3T) \<and>
   enabling_macro Sse3T = Some CORRADE_TARGET_SSE3 \<and>
   \<not> runtime_detection
     \<lparr>target = X86, defined = {CORRADE_TARGET_SSE2, CORRADE_TARGET_SSE3}, ANDROID_API = 0\<rparr> \<and>
   runtimeFeatures
     \<lparr>target = X86, defined = {CORRADE_TARGET_SSE2, CORRADE_TARGET_SSE3}, ANDROID_API = 0\<rparr>
     (Features 1) =
   compiledFeatures
     \<lparr>target = X86, defined = {CORRADE_TARGET_SSE2, CORRADE_TARGET_SSE3}, ANDROID_API = 0\<rparr> \<and>
   tag_defined X86 Avx2T \<and> Avx2T \<in> set (base_tag_types X86)"
proof -
  let ?c = "\<lparr>target = X86, defined = {CORRADE_TARGET_SSE2, CORRADE_TARGET_SSE3},
    ANDROID_API = 0\<rparr>"
  have 1: "priority X86 (Tags 0x30040) = Inr 37"
    by (simp add: masks ExtraTagBitOffset_def ExtraTagCount_def BitIndex.simps BitCount_def)
  then have 2: "CORRADE_CPU_SELECT X86 (Tags 0x30040) = Inr (Tags 0x30040, 37)"
    by (simp only: CORRADE_CPU_SELECT_def sum.case)
  have 3: "IsTagConversionAllowed 0x10001 0x30040"
    by (simp add: IsTagConversionAllowed_def masks)
  have 4: "\<not> runtime_detection ?c"
    by (simp add: runtime_detection_def)
  have 5: "tag_defined (target ?c) Sse3T \<and> Sse3T \<noteq> Avx512fT \<and>
      (\<exists>m. enabling_macro Sse3T = Some m \<and> m \<in> defined ?c)"
    by simp
  note layout = capability_set_layout [of X86 Avx2T "Tags 0x30040" 37 "(Tags 0x30040, 37)"
      "0x10001" "0x30040" ?c Sse3T "Features 1"]
  from layout 5 have 6: "Features_ge (compiledFeatures ?c) (Features_of_tag Sse3T)"
    by blast
  from layout 1 2 3 4 6 show ?thesis
    by simp
qed

subsection \<open>The base dispatcher\<close>

lemma dispatched_tags_chain: "inheritance_chain (dispatched_tags t @ [ScalarT])"
  by (cases t) simp_all

lemma inheritance_chain_suffix:
  "inheritance_chain (xs @ ys) \<Longrightarrow> inheritance_chain ys"
proof (induction xs)
  case Nil
  then show ?case by simp
next
  case (Cons x xs)
  then show ?case by (cases "xs @ ys") auto
qed

lemma overload_for_tag_chain:
  "inheritance_chain (T # Ts) \<Longrightarrow>
   overload_for_tag declared T = find (\<lambda>U. U \<in> set declared) (T # Ts)"
proof (induction Ts arbitrary: T)
  case Nil
  then show ?case by (simp add: overload_for_tag.simps [of declared T])
next
  case (Cons U Ts)
  then show ?case by (simp add: overload_for_tag.simps [of declared T])
qed

lemma dispatch_chain_find:
  "dispatch_chain cond f Ts = f (case find cond Ts of Some T \<Rightarrow> T | None \<Rightarrow> ScalarT)"
  by (induction Ts) simp_all


lemma DISPATCHER_BASE_call:
  "CORRADE_CPU_DISPATCHER_BASE t function features = function (dispatched_base t features)"
  by (simp add: CORRADE_CPU_DISPATCHER_BASE_def dispatch_chain_find dispatched_base_def
      Features_bool_def Features_and_def Features_of_tag_def and.commute)

lemma dispatched_tags_rev: "dispatched_tags t = rev (base_tag_types t)"
  by (cases t) simp_all

lemma find_Some_split:
  "find P xs = Some x \<Longrightarrow>
   \<exists>pre post. xs = pre @ x # post \<and> P x \<and> (\<forall>y\<in>set pre. \<not> P y)"
proof (induction xs)
  case Nil
  then show ?case by simp
next
  case (Cons a xs)
  show ?case
  proof (cases "P a")
    case True
    with Cons.prems have "a # xs = [] @ x # xs \<and> P x \<and> (\<forall>y\<in>set []. \<not> P y)"
      by simp
    then show ?thesis by blast
  next
    case False
    with Cons obtain pre post where "xs = pre @ x # post" "P x" "\<forall>y\<in>set pre. \<not> P y"
      by auto
    with False have "a # xs = (a # pre) @ x # post \<and> P x \<and> (\<forall>y\<in>set (a # pre). \<not> P y)"
      by simp
    then show ?thesis by blast
  qed
qed

lemma dispatched_split:
  "\<exists>pre post. dispatched_tags t @ [ScalarT] = pre @ dispatched_base t features # post \<and>
     (\<forall>T\<in>set pre. Index T AND data features = 0) \<and>
     (dispatched_base t features = ScalarT \<or>
      Index (dispatched_base t features) AND data features \<noteq> 0)"
proof (cases "find (\<lambda>T. Index T AND data features \<noteq> 0) (dispatched_tags t)")
  case None
  then have "\<forall>T\<in>set (dispatched_tags t). Index T AND data features = 0"
    by (simp add: find_None_iff)
  moreover from None have "dispatched_base t features = ScalarT"
    by (simp add: dispatched_base_def)
  ultimately show ?thesis by auto
next
  case (Some B)
  then obtain pre post where "dispatched_tags t = pre @ B # post"
    "Index B AND data features \<noteq> 0" "\<forall>T\<in>set pre. \<not> Index T AND data features \<noteq> 0"
    by (blast dest: find_Some_split)
  moreover from Some have "dispatched_base t features = B"
    by (simp add: dispatched_base_def)
  ultimately have "dispatched_tags t @ [ScalarT] =
      pre @ dispatched_base t features # (post @ [ScalarT]) \<and>
      (\<forall>T\<in>set pre. Index T AND data features = 0) \<and>
      Index (dispatched_base t features) AND data features \<noteq> 0"
    by simp
  then show ?thesis by blast
qed

lemma chain_priorities:
  "sorted_wrt (\<lambda>V W. tag_priority_le t W V \<and> Index W \<le> Index V) (dispatched_tags t @ [ScalarT])"
  by (cases t)
    (simp_all add: tag_priority_le_def masks ExtraTagCount_def BitIndex.simps word_le_nat_alt)

lemma chain_nonzero: "T \<in> set (dispatched_tags t) \<Longrightarrow> Index T \<noteq> 0"
  by (cases t) auto

lemma chain_set: "set (dispatched_tags t @ [ScalarT]) = set (ScalarT # base_tag_types t)"
  by (cases t) auto


lemma dispatched_tag_bit:
  assumes "T \<in> set (dispatched_tags t)"
  shows "Index T AND x \<noteq> 0 \<longleftrightarrow> x AND Index T = Index T"
proof -
  from assms have "Index T \<in> set (map Index (base_tag_types t))"
    by (simp add: dispatched_tags_rev)
  then have "Index T \<in> set (map (\<lambda>i. 2 ^ i) [0..<length (base_tag_types t)])"
    by (simp only: base_tag_types_Index)
  moreover have "length (base_tag_types t) \<le> 8"
    by (cases t) simp_all
  ultimately obtain i where i: "Index T = 2 ^ i" "i < 32"
    by auto
  have "(2 ^ i AND x \<noteq> 0) = bit x i"
    using and_exp_eq_0_iff_not_bit [of x i] by (simp add: and.commute)
  moreover have "(x AND 2 ^ i = 2 ^ i) = bit x i"
  proof
    assume "x AND 2 ^ i = 2 ^ i"
    then have "bit (x AND 2 ^ i) i = bit (2 ^ i :: u32) i" by simp
    then show "bit x i" using i(2) by (simp add: bit_simps)
  next
    assume "bit x i"
    then show "x AND 2 ^ i = 2 ^ i" by (intro bit_eqI) (auto simp: bit_simps)
  qed
  ultimately show ?thesis by (simp add: i)
qed

lemma sorted_wrt_before:
  assumes "sorted_wrt R (xs @ y # ys)" and "z \<in> set (y # ys)" and "R y y"
  shows "R y z"
  using assms by (auto simp: sorted_wrt_append)


lemma tag_priority_le_refl: "tag_priority_le t V V"
  by (simp add: tag_priority_le_def)

lemma base_dispatcher_selected:
  assumes scalar: "ScalarT \<in> set declared"
    and base: "set declared \<subseteq> set (ScalarT # base_tag_types t)"
  shows "\<exists>B V.
     (\<forall>function :: tag \<Rightarrow> tag option.
        CORRADE_CPU_DISPATCHER_BASE t function features = function B) \<and>
     (B = ScalarT \<or>
      B \<in> set (base_tag_types t) \<and> Features_ge features (Features_of_tag B)) \<and>
     (\<forall>T\<in>set (base_tag_types t).
        Features_ge features (Features_of_tag T) \<longrightarrow> B \<noteq> ScalarT \<and> Index T \<le> Index B) \<and>
     CORRADE_CPU_DISPATCHER_BASE t (overload_for_tag declared) features = Some V \<and>
     V \<in> set declared \<and> (B \<in> set declared \<longrightarrow> V = B) \<and>
     (\<forall>W\<in>set declared.
        Features_le (Features_of_tag W) features \<longrightarrow> tag_priority_le t W V) \<and>
     ((\<forall>T\<in>set (base_tag_types t).
         Index T \<le> Index B \<longrightarrow> Features_le (Features_of_tag T) features) \<longrightarrow>
      Features_le (Features_of_tag V) features)"
proof -
  define B where "B = dispatched_base t features"
  define chain where "chain = dispatched_tags t @ [ScalarT]"
  define R where "R = (\<lambda>V W. tag_priority_le t W V \<and> Index W \<le> Index V)"
  have R_refl: "R T T" for T
    by (simp add: R_def tag_priority_le_refl)
  obtain pre post where split: "chain = pre @ B # post"
    and pre: "\<forall>T\<in>set pre. Index T AND data features = 0"
    and B: "B = ScalarT \<or> Index B AND data features \<noteq> 0"
    using dispatched_split [of t features] unfolding B_def chain_def by blast
  have sorted: "sorted_wrt R chain"
    unfolding R_def chain_def by (rule chain_priorities)
  have chain_set: "set chain = set (ScalarT # base_tag_types t)"
    unfolding chain_def by (rule chain_set)
  have "butlast chain = dispatched_tags t"
    by (simp add: chain_def)
  moreover have "butlast chain = pre @ butlast (B # post)"
    by (simp add: split butlast_append)
  ultimately have "set (dispatched_tags t) = set (pre @ butlast (B # post))"
    by (simp only:)
  then have "set pre \<subseteq> set (dispatched_tags t)"
    by (simp only: set_append) blast
  then have pre_nonzero: "Index T \<noteq> 0" if "T \<in> set pre" for T
    using that chain_nonzero [of T t] by blast
  have contained: "T \<in> set (B # post)"
    if "T \<in> set chain" "data features AND Index T = Index T" "T \<noteq> ScalarT" for T
  proof -
    from that chain_set have "T \<in> set (dispatched_tags t)"
      by (auto simp: dispatched_tags_rev)
    then have "Index T \<noteq> 0" by (rule chain_nonzero)
    with that(2) have "Index T AND data features \<noteq> 0"
      by (simp add: and.commute)
    with pre have "T \<notin> set pre" by blast
    with that(1) show ?thesis by (simp add: split)
  qed
  have "last chain = ScalarT" by (simp add: chain_def)
  then have "last (B # post) = ScalarT" by (simp add: split)
  then have scalar_in: "ScalarT \<in> set (B # post)"
    by (metis last_in_set list.distinct(1))
  have "inheritance_chain (pre @ B # post)"
    using dispatched_tags_chain [of t] by (simp add: chain_def [symmetric] split)
  then have "inheritance_chain (B # post)"
    by (rule inheritance_chain_suffix)
  then have ov: "overload_for_tag declared B = find (\<lambda>U. U \<in> set declared) (B # post)"
    by (rule overload_for_tag_chain)
  from scalar scalar_in have "find (\<lambda>U. U \<in> set declared) (B # post) \<noteq> None"
    by (simp only: find_None_iff) blast
  then obtain V where V: "find (\<lambda>U. U \<in> set declared) (B # post) = Some V"
    by blast
  then obtain p2 q2 where s2: "B # post = p2 @ V # q2" and Vd: "V \<in> set declared"
    and p2: "\<forall>U\<in>set p2. U \<notin> set declared"
    by (blast dest: find_Some_split)
  have sorted2: "sorted_wrt R ((pre @ p2) @ V # q2)"
    using sorted by (simp add: split s2)
  have sortedB: "sorted_wrt R (pre @ B # post)"
    using sorted by (simp add: split)
  have 1: "CORRADE_CPU_DISPATCHER_BASE t f features = f B"
    for f :: "tag \<Rightarrow> tag option"
    by (simp add: DISPATCHER_BASE_call B_def)
  have Bin: "B \<in> set chain" by (simp add: split)
  have 2: "B = ScalarT \<or>
      B \<in> set (base_tag_types t) \<and> Features_ge features (Features_of_tag B)"
  proof (cases "B = ScalarT")
    case True
    then show ?thesis ..
  next
    case False
    with Bin chain_set have Bb: "B \<in> set (base_tag_types t)" by simp
    then have "B \<in> set (dispatched_tags t)" by (simp add: dispatched_tags_rev)
    with B False have "data features AND Index B = Index B"
      by (simp add: dispatched_tag_bit)
    with Bb show ?thesis
      by (simp add: Features_ge_def Features_of_tag_def)
  qed
  have 3: "B \<noteq> ScalarT \<and> Index T \<le> Index B"
    if T: "T \<in> set (base_tag_types t)" and ge: "Features_ge features (Features_of_tag T)" for T
  proof -
    from T have Td: "T \<in> set (dispatched_tags t)" by (simp add: dispatched_tags_rev)
    then have "T \<noteq> ScalarT" using chain_nonzero [of T t] by auto
    moreover from T chain_set have "T \<in> set chain" by simp
    ultimately have in_post: "T \<in> set (B # post)"
      using ge by (intro contained) (simp_all add: Features_ge_def Features_of_tag_def)
    with sortedB have "R B T"
      by (rule sorted_wrt_before) (rule R_refl)
    then have le: "Index T \<le> Index B" by (simp add: R_def)
    from Td have "Index T \<noteq> 0" by (rule chain_nonzero)
    with le have "Index B \<noteq> 0" by auto
    then have "B \<noteq> ScalarT" by auto
    with le show ?thesis by simp
  qed
  have 4: "CORRADE_CPU_DISPATCHER_BASE t (overload_for_tag declared) features = Some V"
    by (simp only: 1 ov V)
  have 5: "tag_priority_le t W V"
    if W: "W \<in> set declared" and le: "Features_le (Features_of_tag W) features" for W
  proof -
    from W base chain_set have Wc: "W \<in> set chain" by blast
    have "W \<in> set (B # post)"
    proof (cases "W = ScalarT")
      case True
      with scalar_in show ?thesis by simp
    next
      case False
      with Wc le show ?thesis
        by (intro contained) (simp_all add: Features_le_def Features_of_tag_def and.commute)
    qed
    with W p2 have "W \<in> set (V # q2)" by (auto simp: s2)
    with sorted2 have "R V W"
      by (rule sorted_wrt_before) (rule R_refl)
    then show ?thesis by (simp add: R_def)
  qed
  have 6: "Features_le (Features_of_tag V) features"
    if closed: "\<forall>T\<in>set (base_tag_types t).
      Index T \<le> Index B \<longrightarrow> Features_le (Features_of_tag T) features"
  proof (cases "V = ScalarT")
    case True
    then show ?thesis by (simp add: Features_le_def Features_of_tag_def)
  next
    case False
    have "V \<in> set (B # post)" by (simp add: s2)
    with sortedB have "R B V"
      by (rule sorted_wrt_before) (rule R_refl)
    then have "Index V \<le> Index B" by (simp add: R_def)
    moreover from Vd base False have "V \<in> set (base_tag_types t)" by auto
    ultimately show ?thesis using closed by blast
  qed
  have 7: "V = B" if "B \<in> set declared"
    using V that by simp
  from 1 2 3 4 Vd 5 6 7 show ?thesis by blast
qed


text \<open>
  Claim C3, as stated: the dispatcher returns the variant of the first base tag, from the
  highest rank down, that is contained in the features, and among the safe variants (tag a
  subset of the features) the selected one has maximal priority. For features holding
  \<^verbatim>\<open>Avx2\<close> alone and variants for \<^verbatim>\<open>Scalar\<close> and \<^verbatim>\<open>Sse2\<close>, the dispatcher calls
  \<^verbatim>\<open>function(Avx2)\<close>, which is the \<^verbatim>\<open>Sse2\<close> variant (\<^verbatim>\<open>Avx2T\<close> derives from \<^verbatim>\<open>Sse2T\<close>), and
  \<^verbatim>\<open>Sse2\<close> is not a subset of the features: the selected variant is not among the safe ones.
\<close>

theorem base_dispatcher_counterexample:
  "CORRADE_CPU_DISPATCHER_BASE X86 (overload_for_tag [ScalarT, Sse2T]) (Features (Index Avx2T))
     = Some Sse2T \<and>
   \<not> Features_le (Features_of_tag Sse2T) (Features (Index Avx2T))"
  by (simp add: CORRADE_CPU_DISPATCHER_BASE_def Features_bool_def Features_and_def
      Features_of_tag_def Features_le_def overload_for_tag.simps)

text \<open>
  Claim C3, amended. With a variant for \<^verbatim>\<open>Scalar\<close> and every variant taking a base tag of the
  target, for all features: the dispatcher calls \<open>function\<close> with the highest base tag \<open>B\<close>
  contained in the features, with \<^verbatim>\<open>Scalar\<close> exactly when no base tag is contained; the call
  returns a declared variant \<open>V\<close>, the one of \<open>B\<close> when there is one; no safe variant (tag a
  subset of the features) has a priority above that of \<open>V\<close>; and \<open>V\<close> is itself safe when
  the features contain every base tag up to \<open>B\<close>.
\<close>

theorem base_dispatcher_selection:
  assumes scalar: "ScalarT \<in> set declared"
    and base: "set declared \<subseteq> set (ScalarT # base_tag_types t)"
  shows "\<exists>B V.
     (\<forall>function :: tag \<Rightarrow> tag option.
        CORRADE_CPU_DISPATCHER_BASE t function features = function B) \<and>
     (B = ScalarT \<or>
      B \<in> set (base_tag_types t) \<and> Features_ge features (Features_of_tag B)) \<and>
     (\<forall>T\<in>set (base_tag_types t).
        Features_ge features (Features_of_tag T) \<longrightarrow> B \<noteq> ScalarT \<and> Index T \<le> Index B) \<and>
     CORRADE_CPU_DISPATCHER_BASE t (overload_for_tag declared) features = Some V \<and>
     V \<in> set declared \<and> (B \<in> set declared \<longrightarrow> V = B) \<and>
     (\<forall>W\<in>set declared.
        Features_le (Features_of_tag W) features \<longrightarrow> tag_priority_le t W V) \<and>
     ((\<forall>T\<in>set (base_tag_types t).
         Index T \<le> Index B \<longrightarrow> Features_le (Features_of_tag T) features) \<longrightarrow>
      Features_le (Features_of_tag V) features)"
  using assms by (rule base_dispatcher_selected)

theorem base_dispatcher_selection_witness:
  "ScalarT \<in> set [ScalarT, Sse2T, Avx2T] \<and>
   set [ScalarT, Sse2T, Avx2T] \<subseteq> set (ScalarT # base_tag_types X86) \<and>
   CORRADE_CPU_DISPATCHER_BASE X86 (overload_for_tag [ScalarT, Sse2T, Avx2T]) (Features 0x7f)
     = Some Avx2T \<and>
   Features_le (Features_of_tag Avx2T) (Features 0x7f) \<and>
   (\<exists>V. CORRADE_CPU_DISPATCHER_BASE X86 (overload_for_tag [ScalarT, Sse2T, Avx2T])
          (Features 0x7f) = Some V \<and>
        V \<in> set [ScalarT, Sse2T, Avx2T] \<and>
        (\<forall>W\<in>set [ScalarT, Sse2T, Avx2T].
           Features_le (Features_of_tag W) (Features 0x7f) \<longrightarrow> tag_priority_le X86 W V))"
proof -
  have 1: "ScalarT \<in> set [ScalarT, Sse2T, Avx2T]"
    and 2: "set [ScalarT, Sse2T, Avx2T] \<subseteq> set (ScalarT # base_tag_types X86)"
    by simp_all
  have 3: "CORRADE_CPU_DISPATCHER_BASE X86 (overload_for_tag [ScalarT, Sse2T, Avx2T])
      (Features 0x7f) = Some Avx2T"
    by (simp add: CORRADE_CPU_DISPATCHER_BASE_def Features_bool_def Features_and_def
        Features_of_tag_def overload_for_tag.simps)
  have 4: "Features_le (Features_of_tag Avx2T) (Features 0x7f)"
    by (simp add: Features_le_def Features_of_tag_def)
  from base_dispatcher_selection [OF 1 2, of "Features 0x7f"]
  have "\<exists>V. CORRADE_CPU_DISPATCHER_BASE X86 (overload_for_tag [ScalarT, Sse2T, Avx2T])
          (Features 0x7f) = Some V \<and>
        V \<in> set [ScalarT, Sse2T, Avx2T] \<and>
        (\<forall>W\<in>set [ScalarT, Sse2T, Avx2T].
           Features_le (Features_of_tag W) (Features 0x7f) \<longrightarrow> tag_priority_le X86 W V)"
    by blast
  with 1 2 3 4 show ?thesis by blast
qed

subsection \<open>The dispatcher with extra tags\<close>

text \<open>
  \<^verbatim>\<open>CORRADE_CPU_DECLARE\<close> names the types only: \<^verbatim>\<open>CORRADE_CPU_DECLARE(Sse2|Avx2)\<close> is
  \<^verbatim>\<open>Tags<0x41>, Priority<35>\<close>, where \<^verbatim>\<open>priority\<close> evaluated on the same expression fails.
\<close>

lemma declare_names_types:
  "CORRADE_CPU_DECLARE X86 (Tags (Tags_or (Index Sse2T) (Index Avx2T))) = (0x41, 35)"
  "priority X86 (Tags (Tags_or (Index Sse2T) (Index Avx2T))) = Inl MoreThanOneBaseTagUsed"
  by (simp_all add: CORRADE_CPU_DECLARE_def Tags_or_def masks ExtraTagBitOffset_def
      ExtraTagCount_def BitIndex.simps BitCount_def)





































end
